theory Spec2Isabelle
  imports Main "HOL-Library.Word"
begin

unbundle bit_operations_syntax

section \<open>Go values used by the parser package\<close>

text \<open>
  Go error values. The three package-level sentinels of \<^verbatim>\<open>parser.go\<close> are constructors of
  their own, so that \<^verbatim>\<open>err == errStoppedByUser\<close> is equality of constructors.
  \<open>ErrNotExist\<close> is the error for which \<^verbatim>\<open>os.IsNotExist\<close> answers true, \<open>ErrEOF\<close> is
  \<^verbatim>\<open>io.EOF\<close>, \<open>ErrSyntax\<close> and \<open>ErrRange\<close> are the two sentinels of \<^verbatim>\<open>strconv\<close>, and
  \<open>NumError f n e\<close> is \<^verbatim>\<open>&strconv.NumError{Func: f, Num: n, Err: e}\<close>, which unwraps to \<open>e\<close>.
  \<open>ErrNew\<close> is \<^verbatim>\<open>errors.New\<close> or \<^verbatim>\<open>fmt.Errorf\<close> without \<^verbatim>\<open>%w\<close>; \<open>ErrWrap m e\<close> is \<^verbatim>\<open>fmt.Errorf\<close>
  with the text \<open>m\<close> followed by \<^verbatim>\<open>%w\<close> for \<open>e\<close>; \<open>ErrWrapV a e\<close> is
  \<^verbatim>\<open>fmt.Errorf("%v: %w", a, e)\<close>, which prints \<open>a\<close> and wraps \<open>e\<close> alone.
\<close>

datatype error =
    ErrFound
  | ErrStoppedByUser
  | ErrFatal
  | ErrNotExist
  | ErrEOF
  | ErrSyntax
  | ErrRange
  | ErrNew string
  | ErrWrap string error
  | ErrWrapV error error
  | NumError string string error

text \<open>\<^verbatim>\<open>errors.Is\<close>: the target is looked for along the chain of wrapped errors.\<close>

fun errors_Is :: "error \<Rightarrow> error \<Rightarrow> bool" where
  "errors_Is (ErrWrap msg e) target = (ErrWrap msg e = target \<or> errors_Is e target)"
| "errors_Is (ErrWrapV a e) target = (ErrWrapV a e = target \<or> errors_Is e target)"
| "errors_Is (NumError f n e) target = (NumError f n e = target \<or> errors_Is e target)"
| "errors_Is e target = (e = target)"

definition os_IsNotExist :: "error option \<Rightarrow> bool" where
  "os_IsNotExist err = (err = Some ErrNotExist)"

text \<open>A call either returns or panics (a method call on a nil interface value).\<close>

datatype 'a go = Panic | Ret 'a

subsection \<open>File information\<close>

text \<open>
  \<^verbatim>\<open>os.FileInfo\<close> as far as the package reads it: the base name, the mode (a 32-bit
  \<^verbatim>\<open>FileMode\<close>) and the modification time, kept as the value of \<^verbatim>\<open>ModTime().Unix()\<close>,
  seconds since the epoch.
\<close>

record fileinfo =
  Name :: string
  Mode :: "32 word"
  ModTime :: int

definition ModeDir :: "32 word" where
  "ModeDir = 0x80000000"

definition ModeType :: "32 word" where
  "ModeType = 0x8F280000"

definition ModePerm :: "32 word" where
  "ModePerm = 0x1FF"

definition IsDir :: "fileinfo \<Rightarrow> bool" where
  "IsDir fi = (Mode fi AND ModeDir \<noteq> 0)"

definition IsRegular :: "32 word \<Rightarrow> bool" where
  "IsRegular m = (m AND ModeType = 0)"

definition Perm :: "32 word \<Rightarrow> 32 word" where
  "Perm m = m AND ModePerm"

subsection \<open>Regular expressions\<close>

text \<open>
  The fragment of Go's \<^verbatim>\<open>regexp\<close> syntax that the package's patterns use: a literal string,
  the classes \<^verbatim>\<open>.\<close> (any character but newline), \<^verbatim>\<open>\d\<close> (\<^verbatim>\<open>[0-9]\<close>) and \<^verbatim>\<open>\s\<close>
  (\<^verbatim>\<open>[\t\n\f\r ]\<close>), one-or-more of a class, a counted repetition of a class, and
  concatenation. A capture group does not change what matches, and a lazy \<^verbatim>\<open>+?\<close> matches
  the same strings as \<^verbatim>\<open>+\<close>. A pattern is a body with the two anchors \<^verbatim>\<open>^\<close> and \<^verbatim>\<open>$\<close>.
  Strings are byte strings; a byte other than newline is matched by \<^verbatim>\<open>.\<close>.
\<close>

datatype cclass = Dot | Digit | Space

datatype regex =
    Str string
  | One cclass
  | Plus cclass
  | Times nat cclass
  | Cat regex regex

record pattern =
  anchor_start :: bool
  body :: regex
  anchor_end :: bool

fun cmatch :: "cclass \<Rightarrow> char \<Rightarrow> bool" where
  "cmatch Dot c = (c \<noteq> CHR 0x0A)"
| "cmatch Digit c = (c \<in> set ''0123456789'')"
| "cmatch Space c = (c \<in> set [CHR 0x09, CHR 0x0A, CHR 0x0C, CHR 0x0D, CHR '' ''])"

text \<open>The remainders left by one or more characters of a class at the front of a string.\<close>

fun plus_rests :: "cclass \<Rightarrow> string \<Rightarrow> string list" where
  "plus_rests k [] = []"
| "plus_rests k (c # t) = (if cmatch k c then t # plus_rests k t else [])"

text \<open>\<open>rests r s\<close>: every remainder of \<open>s\<close> after a prefix of \<open>s\<close> that \<open>r\<close> matches.\<close>

fun rests :: "regex \<Rightarrow> string \<Rightarrow> string list" where
  "rests (Str w) s = (if take (length w) s = w then [drop (length w) s] else [])"
| "rests (One k) s = (case s of [] \<Rightarrow> [] | c # t \<Rightarrow> if cmatch k c then [t] else [])"
| "rests (Plus k) s = plus_rests k s"
| "rests (Times n k) s =
     (if n \<le> length s \<and> list_all (cmatch k) (take n s) then [drop n s] else [])"
| "rests (Cat a b) s = concat (map (rests b) (rests a s))"

fun tails :: "string \<Rightarrow> string list" where
  "tails [] = [[]]"
| "tails (c # t) = (c # t) # tails t"

text \<open>
  \<^verbatim>\<open>Regexp.Match\<close> and \<^verbatim>\<open>Regexp.MatchString\<close>: is there a match anywhere in the text? With
  \<^verbatim>\<open>^\<close> the match starts at the first byte, with \<^verbatim>\<open>$\<close> it ends at the last.
\<close>

definition Match :: "pattern \<Rightarrow> string \<Rightarrow> bool" where
  "Match p s =
     list_ex (\<lambda>t. list_ex (\<lambda>r. if anchor_end p then r = [] else True) (rests (body p) t))
       (if anchor_start p then [s] else tails s)"

section \<open>Package-level constants\<close>

definition oneMillisecond :: int where
  "oneMillisecond = 1000000"

definition simulationLogFileName :: string where
  "simulationLogFileName = ''simulation.log''"

text \<open>\<^verbatim>\<open>^.+?-(\d{14})\d{3}$\<close>\<close>

definition resultDirNamePattern :: pattern where
  "resultDirNamePattern =
     \<lparr>anchor_start = True,
      body = Cat (Plus Dot) (Cat (Str ''-'') (Cat (Times 14 Digit) (Times 3 Digit))),
      anchor_end = True\<rparr>"

text \<open>\<^verbatim>\<open>^USER\s\<close>, \<^verbatim>\<open>^REQUEST\s\<close>, \<^verbatim>\<open>GROUP\s\<close> (no \<^verbatim>\<open>^\<close>), \<^verbatim>\<open>^RUN\s\<close>, \<^verbatim>\<open>^ERROR\s\<close>\<close>

definition userLine :: pattern where
  "userLine = \<lparr>anchor_start = True, body = Cat (Str ''USER'') (One Space), anchor_end = False\<rparr>"

definition requestLine :: pattern where
  "requestLine =
     \<lparr>anchor_start = True, body = Cat (Str ''REQUEST'') (One Space), anchor_end = False\<rparr>"

definition groupLine :: pattern where
  "groupLine = \<lparr>anchor_start = False, body = Cat (Str ''GROUP'') (One Space), anchor_end = False\<rparr>"

definition runLine :: pattern where
  "runLine = \<lparr>anchor_start = True, body = Cat (Str ''RUN'') (One Space), anchor_end = False\<rparr>"

definition errorLine :: pattern where
  "errorLine = \<lparr>anchor_start = True, body = Cat (Str ''ERROR'') (One Space), anchor_end = False\<rparr>"

section \<open>Directory Resolver\<close>

subsection \<open>walkFunc and the results-directory walk\<close>

text \<open>
  \<open>walkFunc\<close> reads the globals \<open>startTime\<close> and \<open>logDir\<close> and may assign \<open>logDir\<close>: both
  are passed in, and the new \<open>logDir\<close> is returned beside the error. The \<open>info\<close> argument is
  an interface value, \<open>None\<close> when it is nil; \<^verbatim>\<open>info.IsDir()\<close> on nil panics. The \<open>err\<close>
  argument is never read. \<open>startTime\<close> is \<^verbatim>\<open>time.Now().Unix()\<close>, an integer of seconds.
\<close>

definition walkFunc ::
  "int \<Rightarrow> string \<Rightarrow> string \<Rightarrow> fileinfo option \<Rightarrow> error option \<Rightarrow> (error option \<times> string) go"
where
  "walkFunc startTime logDir path info err =
     (case info of
        None \<Rightarrow> Panic
      | Some fi \<Rightarrow>
          if IsDir fi \<and> Match resultDirNamePattern (Name fi) then
            (let startTimeMinusSlack = startTime - 60 in
             if ModTime fi > startTimeMinusSlack then Ret (Some ErrFound, path)
             else Ret (None, logDir))
          else Ret (None, logDir))"

text \<open>
  \<^verbatim>\<open>filepath.Walk(dir, walkFunc)\<close> calls the function once for each entry it reaches, in
  lexical order, with the entry's path, its \<^verbatim>\<open>FileInfo\<close> (nil when \<^verbatim>\<open>Lstat\<close> failed) and the
  error met there, and returns the first non-nil error the function returns (\<open>walkFunc\<close>
  never returns \<^verbatim>\<open>SkipDir\<close>). The sequence of calls that the traversal makes while it is
  not stopped is the input of the model.
\<close>

record visit =
  v_path :: string
  v_info :: "fileinfo option"
  v_err :: "error option"

fun Walk :: "int \<Rightarrow> visit list \<Rightarrow> string \<Rightarrow> (error option \<times> string) go" where
  "Walk startTime [] logDir = Ret (None, logDir)"
| "Walk startTime (v # vs) logDir =
     (case walkFunc startTime logDir (v_path v) (v_info v) (v_err v) of
        Panic \<Rightarrow> Panic
      | Ret (Some e, logDir') \<Rightarrow> Ret (Some e, logDir')
      | Ret (None, logDir') \<Rightarrow> Walk startTime vs logDir')"

text \<open>
  One round of a polling loop sees whether the context is done and what the file system
  holds at that moment. A loop consumes one observation for each round; \<open>None\<close> is a
  loop that is still polling when the observations end.
\<close>

record walk_poll =
  wp_done :: bool
  wp_visits :: "string \<Rightarrow> visit list"

fun lookupResultsDir ::
  "int \<Rightarrow> string \<Rightarrow> walk_poll list \<Rightarrow> string \<Rightarrow> (error option \<times> string) go option"
where
  "lookupResultsDir startTime dir [] logDir = None"
| "lookupResultsDir startTime dir (p # ps) logDir =
     (if wp_done p then Some (Ret (Some ErrStoppedByUser, logDir))
      else
        (case Walk startTime (wp_visits p dir) logDir of
           Panic \<Rightarrow> Some Panic
         | Ret (err, logDir') \<Rightarrow>
             if err = Some ErrFound then Some (Ret (None, logDir'))
             else if err \<noteq> None then Some (Ret (err, logDir'))
             else lookupResultsDir startTime dir ps logDir'))"

text \<open>The test that \<open>walkFunc\<close> applies to an entry, as one predicate on a call.\<close>

definition selects :: "int \<Rightarrow> visit \<Rightarrow> bool" where
  "selects startTime v =
     (case v_info v of
        None \<Rightarrow> False
      | Some fi \<Rightarrow>
          IsDir fi \<and> Match resultDirNamePattern (Name fi) \<and> ModTime fi > startTime - 60)"

subsection \<open>lookupTargetDir and waitForLog\<close>

text \<open>
  A round of these two loops sees whether the context is done and what \<^verbatim>\<open>os.Stat\<close>
  answers for a path: an error or a \<^verbatim>\<open>FileInfo\<close>. \<^verbatim>\<open>time.Sleep(loopTimeout)\<close> separates two
  rounds.
\<close>

record stat_poll =
  sp_done :: bool
  sp_stat :: "string \<Rightarrow> error + fileinfo"

fun lookupTargetDir :: "string \<Rightarrow> stat_poll list \<Rightarrow> error option option" where
  "lookupTargetDir dir [] = None"
| "lookupTargetDir dir (p # ps) =
     (if sp_done p then Some (Some ErrStoppedByUser)
      else
        (case sp_stat p dir of
           Inl err \<Rightarrow>
             if \<not> os_IsNotExist (Some err) then
               Some (Some (ErrWrap (''Target path '' @ dir @ '' exists but there is an error: '') err))
             else lookupTargetDir dir ps
         | Inr fInfo \<Rightarrow>
             if \<not> IsDir fInfo then
               Some (Some (ErrNew (''Was expecting directory at '' @ dir @ '', but found a file'')))
             else Some None))"

text \<open>\<open>windows\<close> is \<^verbatim>\<open>runtime.GOOS == "windows"\<close>; the comparison with 420 is unsigned.\<close>

fun waitForLog :: "bool \<Rightarrow> string \<Rightarrow> stat_poll list \<Rightarrow> error option option" where
  "waitForLog windows logDir [] = None"
| "waitForLog windows logDir (p # ps) =
     (if sp_done p then Some (Some ErrStoppedByUser)
      else
        (case sp_stat p (logDir @ ''/'' @ simulationLogFileName) of
           Inl err \<Rightarrow>
             if \<not> os_IsNotExist (Some err) then Some (Some err)
             else waitForLog windows logDir ps
         | Inr fInfo \<Rightarrow>
             if IsRegular (Mode fInfo) \<and> (windows \<or> Perm (Mode fInfo) \<ge> 420) then Some None
             else
               Some (Some (ErrNew (''Something wrong happened when attempting to open '' @
                 simulationLogFileName)))))"

subsection \<open>The Resolver phase of RunMain\<close>

text \<open>
  How \<open>RunMain\<close> ends before the concurrent phase: a plain return, \<^verbatim>\<open>os.Exit\<close> with a
  status, a panic, or the start of the two goroutines with the log directory found. The
  global \<open>logDir\<close> starts as the empty string.
\<close>

datatype outcome = Returned | Exit nat | Panicked | Started string

definition afterLookup :: "error \<Rightarrow> outcome" where
  "afterLookup err = (if err = ErrStoppedByUser then Returned else Exit 1)"

definition RunMain ::
  "int \<Rightarrow> bool \<Rightarrow> string \<Rightarrow> stat_poll list \<Rightarrow> walk_poll list \<Rightarrow> stat_poll list \<Rightarrow> outcome option"
where
  "RunMain startTime windows absDir tps rps lps =
     (case lookupTargetDir absDir tps of
        None \<Rightarrow> None
      | Some (Some err) \<Rightarrow> Some (afterLookup err)
      | Some None \<Rightarrow>
          (case lookupResultsDir startTime absDir rps [] of
             None \<Rightarrow> None
           | Some Panic \<Rightarrow> Some Panicked
           | Some (Ret (Some err, logDir)) \<Rightarrow> Some (afterLookup err)
           | Some (Ret (None, logDir)) \<Rightarrow>
               (case waitForLog windows logDir lps of
                  None \<Rightarrow> None
                | Some (Some err) \<Rightarrow> Some (afterLookup err)
                | Some None \<Rightarrow> Some (Started logDir))))"

section \<open>Timestamp conversion\<close>

text \<open>
  \<^verbatim>\<open>strconv.ParseUint(s, 10, 64)\<close>, as its loop runs: the characters are read from the left; a
  character that is no decimal digit ends it with \<open>ErrSyntax\<close>, a value that leaves 64 bits
  ends it with the largest value and \<open>ErrRange\<close>. The second component is the \<open>Err\<close> field
  of the \<^verbatim>\<open>*NumError\<close> returned.
\<close>

definition isDigit :: "char \<Rightarrow> bool" where
  "isDigit c = (48 \<le> (of_char c :: nat) \<and> (of_char c :: nat) \<le> 57)"

definition maxUint64 :: nat where
  "maxUint64 = 18446744073709551615"

fun ParseUint_loop :: "nat \<Rightarrow> string \<Rightarrow> nat \<times> error option" where
  "ParseUint_loop n [] = (n, None)"
| "ParseUint_loop n (c # cs) =
     (if \<not> isDigit c then (0, Some ErrSyntax)
      else if n \<ge> maxUint64 div 10 + 1 then (maxUint64, Some ErrRange)
      else
        (let n1 = n * 10 + (of_char c - 48)
         in if n1 > maxUint64 then (maxUint64, Some ErrRange)
            else ParseUint_loop n1 cs))"

definition ParseUint :: "string \<Rightarrow> nat \<times> error option" where
  "ParseUint s = (if s = [] then (0, Some ErrSyntax) else ParseUint_loop 0 s)"

text \<open>
  \<^verbatim>\<open>strconv.ParseInt(s, 10, 64)\<close>: the empty string is a syntax error; a leading sign is taken
  off; a syntax error of \<open>ParseUint\<close> is returned with \<open>Func\<close> and \<open>Num\<close> rewritten; the
  unsigned value is then checked against \<open>2 ^ 63\<close>.
\<close>

definition ParseInt :: "string \<Rightarrow> error + int" where
  "ParseInt s =
     (if s = [] then Inl (NumError ''ParseInt'' s ErrSyntax)
      else
        (let s0 = s;
             neg = (hd s = CHR ''-'');
             s1 = (if hd s = CHR ''+'' \<or> hd s = CHR ''-'' then tl s else s);
             (un, err) = ParseUint s1;
             cutoff = 2 ^ 63
         in case (if err = Some ErrRange then None else err) of
              Some e \<Rightarrow> Inl (NumError ''ParseInt'' s0 e)
            | None \<Rightarrow>
                if \<not> neg \<and> un \<ge> cutoff then Inl (NumError ''ParseInt'' s0 ErrRange)
                else if neg \<and> un > cutoff then Inl (NumError ''ParseInt'' s0 ErrRange)
                else Inr (if neg then - int un else int un)))"

text \<open>
  A \<^verbatim>\<open>time.Time\<close> is kept as its count of nanoseconds since the epoch; \<^verbatim>\<open>time.Unix(sec, nsec)\<close>
  is the instant \<open>sec\<close> seconds and \<open>nsec\<close> nanoseconds after it.
\<close>

definition time_Unix :: "int \<Rightarrow> int \<Rightarrow> int" where
  "time_Unix sec nsec = sec * 1000000000 + nsec"

text \<open>
  \<^verbatim>\<open>rand.Int63n(n)\<close> panics when \<open>n \<le> 0\<close>. Otherwise it returns \<^verbatim>\<open>v % n\<close>, where \<open>v\<close> is the
  non-negative 63-bit value that the generator delivers and the sampling loop of \<^verbatim>\<open>Int63n\<close>
  keeps. The generator's value is the input.
\<close>

definition rand_Int63n :: "int \<Rightarrow> 63 word \<Rightarrow> int go" where
  "rand_Int63n n v = (if n \<le> 0 then Panic else Ret (uint v mod n))"

text \<open>
  \<open>timeFromUnixBytes\<close>; \<open>v\<close> is the generator's value for the call
  \<^verbatim>\<open>rand.Int63n(oneMillisecond)\<close>, which is made only when the timestamp was parsed. The
  product and the sum are \<^verbatim>\<open>int64\<close> and wrap around.
\<close>

definition timeFromUnixBytes :: "string \<Rightarrow> 63 word \<Rightarrow> (error + int) go" where
  "timeFromUnixBytes ub v =
     (case ParseInt ub of
        Inl err \<Rightarrow> Ret (Inl (ErrWrap ''Failed to parse timestamp as integer: '' err))
      | Inr timeStamp \<Rightarrow>
          (case rand_Int63n oneMillisecond v of
             Panic \<Rightarrow> Panic
           | Ret r \<Rightarrow>
               Ret (Inr (time_Unix 0
                 (sint (word_of_int timeStamp * word_of_int oneMillisecond + word_of_int r
                    :: 64 word))))))"

section \<open>Line classification\<close>

text \<open>
  The five record parsers are not part of \<^verbatim>\<open>parser.go\<close>; they are parameters. Each reads
  a line and the state the parsers share (the log format flag, what was sent to the sink),
  and returns its error with the new state.
\<close>

record 'p parsers =
  requestLineParser :: "string \<Rightarrow> 'p \<Rightarrow> error option \<times> 'p"
  groupLineParser :: "string \<Rightarrow> 'p \<Rightarrow> error option \<times> 'p"
  userLineParser :: "string \<Rightarrow> 'p \<Rightarrow> error option \<times> 'p"
  errorLineParser :: "string \<Rightarrow> 'p \<Rightarrow> error option \<times> 'p"
  runLineParser :: "string \<Rightarrow> 'p \<Rightarrow> error option \<times> 'p"

definition stringProcessor ::
  "'p parsers \<Rightarrow> string \<Rightarrow> string \<Rightarrow> 'p \<Rightarrow> error option \<times> 'p"
where
  "stringProcessor P lineBuffer gatlingVersion ps =
     (if Match requestLine lineBuffer then requestLineParser P lineBuffer ps
      else if Match groupLine lineBuffer then groupLineParser P lineBuffer ps
      else if Match userLine lineBuffer then userLineParser P lineBuffer ps
      else if Match errorLine lineBuffer then errorLineParser P lineBuffer ps
      else if Match runLine lineBuffer then
        (case runLineParser P lineBuffer ps of
           (Some err, ps') \<Rightarrow> (Some (ErrWrapV err ErrFatal), ps')
         | (None, ps') \<Rightarrow> (None, ps'))
      else (Some (ErrNew ''Unknown line type encountered''), ps))"

text \<open>The case of the \<^verbatim>\<open>switch\<close> in \<open>stringProcessor\<close> that a line takes.\<close>

datatype kind = Request | Group | User | ErrorRecord | RunHeader

definition lineKind :: "string \<Rightarrow> kind option" where
  "lineKind lineBuffer =
     (if Match requestLine lineBuffer then Some Request
      else if Match groupLine lineBuffer then Some Group
      else if Match userLine lineBuffer then Some User
      else if Match errorLine lineBuffer then Some ErrorRecord
      else if Match runLine lineBuffer then Some RunHeader
      else None)"

section \<open>Tailing Reader\<close>

text \<open>
  One round of \<open>ParseLoop\<close> sees whether the context is done, what \<^verbatim>\<open>r.ReadBytes('\n')\<close>
  returns (the bytes and the error: nil, \<^verbatim>\<open>io.EOF\<close> or another) and what \<^verbatim>\<open>time.Now()\<close>
  answers in that round, an instant in nanoseconds. The state is the buffer and
  \<open>startWait\<close>, the state of the record parsers, and what the loop did: the buffers it
  handed to \<open>stringProcessor\<close>, the one-second sleeps, the log calls, and the values sent
  on \<open>parserStopped\<close>.
\<close>

record read_poll =
  rp_done :: bool
  rp_bytes :: string
  rp_err :: "error option"
  rp_now :: int

datatype log_entry =
    ClosingSignal
  | NoNewLines
  | ReadFailed error
  | ProcessingFailed error
  | CannotHandle

record 'p reader =
  buf :: string
  startWait :: int
  pstate :: 'p
  dispatched :: "string list"
  sleeps :: nat
  logged :: "log_entry list"
  sent :: nat

datatype 'a flow = Continue 'a | Break 'a

text \<open>
  \<^verbatim>\<open>time.Duration(waitTime) * time.Second\<close>: \<open>waitTime\<close> is a \<^verbatim>\<open>uint\<close>, the product an
  \<^verbatim>\<open>int64\<close> of nanoseconds that wraps around.
\<close>

definition idleTimeout :: "64 word \<Rightarrow> int" where
  "idleTimeout waitTime = sint (waitTime * 1000000000)"

definition loopBody ::
  "'p parsers \<Rightarrow> 64 word \<Rightarrow> string \<Rightarrow> read_poll \<Rightarrow> 'p reader \<Rightarrow> 'p reader flow"
where
  "loopBody P waitTime gatlingVersion p st =
     (if rp_done p then Break (st\<lparr>logged := logged st @ [ClosingSignal]\<rparr>)
      else if rp_err p = Some ErrEOF then
        (if rp_now p > startWait st + idleTimeout waitTime then
           Break (st\<lparr>logged := logged st @ [NoNewLines]\<rparr>)
         else Continue (st\<lparr>buf := buf st @ rp_bytes p, sleeps := sleeps st + 1\<rparr>))
      else
        (let st1 = (case rp_err p of
                      Some e \<Rightarrow> st\<lparr>logged := logged st @ [ReadFailed e]\<rparr>
                    | None \<Rightarrow> st);
             st2 = st1\<lparr>buf := buf st1 @ rp_bytes p\<rparr>;
             (err, ps') = stringProcessor P (buf st2) gatlingVersion (pstate st2);
             st3 = st2\<lparr>pstate := ps', dispatched := dispatched st2 @ [buf st2]\<rparr>
         in case err of
              Some e \<Rightarrow>
                (let st4 = st3\<lparr>logged := logged st3 @ [ProcessingFailed e]\<rparr>
                 in if errors_Is e ErrFatal then
                      Break (st4\<lparr>logged := logged st4 @ [CannotHandle]\<rparr>)
                    else Continue (st4\<lparr>buf := [], startWait := rp_now p\<rparr>))
            | None \<Rightarrow> Continue (st3\<lparr>buf := [], startWait := rp_now p\<rparr>)))"

text \<open>
  The loop over the rounds. \<open>Break\<close> is the state in which the loop was left; \<open>Continue\<close>
  is the state of a loop that is still running when the rounds end.
\<close>

fun ParseLoop ::
  "'p parsers \<Rightarrow> 64 word \<Rightarrow> string \<Rightarrow> read_poll list \<Rightarrow> 'p reader \<Rightarrow> 'p reader flow"
where
  "ParseLoop P waitTime gatlingVersion [] st = Continue st"
| "ParseLoop P waitTime gatlingVersion (p # ps) st =
     (case loopBody P waitTime gatlingVersion p st of
        Break st' \<Rightarrow> Break st'
      | Continue st' \<Rightarrow> ParseLoop P waitTime gatlingVersion ps st')"

text \<open>
  \<open>fileProcessor\<close>: \<open>now0\<close> is \<^verbatim>\<open>time.Now()\<close> before the loop. After the loop one value is
  sent on \<open>parserStopped\<close>. \<open>None\<close> is a loop that is still running when the rounds end.
\<close>

definition reader0 :: "int \<Rightarrow> 'p \<Rightarrow> 'p reader" where
  "reader0 now0 ps0 =
     \<lparr>buf = [], startWait = now0, pstate = ps0, dispatched = [], sleeps = 0, logged = [],
      sent = 0\<rparr>"

definition fileProcessor ::
  "'p parsers \<Rightarrow> 64 word \<Rightarrow> string \<Rightarrow> int \<Rightarrow> 'p \<Rightarrow> read_poll list \<Rightarrow> 'p reader option"
where
  "fileProcessor P waitTime gatlingVersion now0 ps0 polls =
     (case ParseLoop P waitTime gatlingVersion polls (reader0 now0 ps0) of
        Continue st \<Rightarrow> None
      | Break st \<Rightarrow> Some (st\<lparr>sent := sent st + 1\<rparr>))"

text \<open>
  Two sets of record parsers to run the model on concrete lines: one accepts every line,
  one rejects every line with a plain error.
\<close>

definition acceptingParsers :: "unit parsers" where
  "acceptingParsers =
     \<lparr>requestLineParser = (\<lambda>l s. (None, s)), groupLineParser = (\<lambda>l s. (None, s)),
      userLineParser = (\<lambda>l s. (None, s)), errorLineParser = (\<lambda>l s. (None, s)),
      runLineParser = (\<lambda>l s. (None, s))\<rparr>"

definition rejectingParsers :: "unit parsers" where
  "rejectingParsers =
     \<lparr>requestLineParser = (\<lambda>l s. (Some (ErrNew ''malformed line''), s)),
      groupLineParser = (\<lambda>l s. (Some (ErrNew ''malformed line''), s)),
      userLineParser = (\<lambda>l s. (Some (ErrNew ''malformed line''), s)),
      errorLineParser = (\<lambda>l s. (Some (ErrNew ''malformed line''), s)),
      runLineParser = (\<lambda>l s. (Some (ErrNew ''malformed line''), s))\<rparr>"

section \<open>Pipeline Orchestrator\<close>

text \<open>
  The concurrent phase of \<open>RunMain\<close> as a transition system. The events are: the
  command's context is cancelled from outside; the parser goroutine leaves \<open>ParseLoop\<close>
  and blocks on its send to the unbuffered channel \<open>parserStopped\<close>; \<open>FinisherLoop\<close> takes
  the case \<^verbatim>\<open><-cmd.Context().Done()\<close>; \<open>FinisherLoop\<close> takes the case \<^verbatim>\<open><-parserStopped\<close>.
  An event that cannot happen in a state has no successor. The state records, in order,
  what \<open>FinisherLoop\<close> received and which cancel functions it called.
\<close>

datatype event = ExternalStop | ParserLeavesLoop | SelectCtxDone | SelectParserStopped

datatype act = ReceivedParserStopped | Called_pCancel | Called_iCancel

datatype parser_phase = Parsing | Sending | Delivered

record orchestrator =
  ctxDone :: bool
  parser :: parser_phase
  inFinisherLoop :: bool
  acts :: "act list"

definition orchestrator0 :: orchestrator where
  "orchestrator0 = \<lparr>ctxDone = False, parser = Parsing, inFinisherLoop = True, acts = []\<rparr>"

fun finisherStep :: "event \<Rightarrow> orchestrator \<Rightarrow> orchestrator option" where
  "finisherStep ExternalStop s = Some (s\<lparr>ctxDone := True\<rparr>)"
| "finisherStep ParserLeavesLoop s =
     (if parser s = Parsing then Some (s\<lparr>parser := Sending\<rparr>) else None)"
| "finisherStep SelectCtxDone s =
     (if inFinisherLoop s \<and> ctxDone s then Some (s\<lparr>acts := acts s @ [Called_pCancel]\<rparr>)
      else None)"
| "finisherStep SelectParserStopped s =
     (if inFinisherLoop s \<and> parser s = Sending then
        Some (s\<lparr>parser := Delivered, inFinisherLoop := False,
                acts := acts s @ [ReceivedParserStopped, Called_iCancel, Called_pCancel]\<rparr>)
      else None)"

fun finisherRun :: "event list \<Rightarrow> orchestrator \<Rightarrow> orchestrator option" where
  "finisherRun [] s = Some s"
| "finisherRun (e # es) s =
     (case finisherStep e s of None \<Rightarrow> None | Some s' \<Rightarrow> finisherRun es s')"

text \<open>
  What holds of the record of \<open>FinisherLoop\<close> in every reachable state: inside the loop
  only \<open>pCancel\<close> was called; after it, the calls end with the receipt, \<open>iCancel\<close>,
  \<open>pCancel\<close>.
\<close>

definition finisher_inv :: "orchestrator \<Rightarrow> bool" where
  "finisher_inv s =
     (if inFinisherLoop s then set (acts s) \<subseteq> {Called_pCancel} \<and> parser s \<noteq> Delivered
      else (\<exists>pre. set pre \<subseteq> {Called_pCancel} \<and>
              acts s = pre @ [ReceivedParserStopped, Called_iCancel, Called_pCancel]) \<and>
           parser s = Delivered)"

section \<open>Results\<close>

subsection \<open>What the patterns match\<close>

lemma set_plus_rests:
  "set (plus_rests k s) = {t. \<exists>pre. pre \<noteq> [] \<and> s = pre @ t \<and> (\<forall>c \<in> set pre. cmatch k c)}"
proof (induction s)
  case Nil
  show ?case by simp
next
  case (Cons c s)
  show ?case
  proof (cases "cmatch k c")
    case False
    then show ?thesis by (auto simp: Cons_eq_append_conv)
  next
    case True
    show ?thesis
    proof (rule set_eqI)
      fix t
      show "t \<in> set (plus_rests k (c # s)) \<longleftrightarrow> t \<in> {t. \<exists>pre. pre \<noteq> [] \<and> c # s = pre @ t \<and> (\<forall>c \<in> set pre. cmatch k c)}"
      proof
        assume "t \<in> set (plus_rests k (c # s))"
        then have "t = s \<or> t \<in> set (plus_rests k s)" using True by simp
        then show "t \<in> {t. \<exists>pre. pre \<noteq> [] \<and> c # s = pre @ t \<and> (\<forall>c \<in> set pre. cmatch k c)}"
        proof
          assume "t = s"
          then have "[c] \<noteq> [] \<and> c # s = [c] @ t \<and> (\<forall>x \<in> set [c]. cmatch k x)" using True by simp
          then show ?thesis by blast
        next
          assume "t \<in> set (plus_rests k s)"
          then obtain pre where "pre \<noteq> []" "s = pre @ t" "\<forall>c \<in> set pre. cmatch k c"
            using Cons.IH by auto
          then have "c # pre \<noteq> [] \<and> c # s = (c # pre) @ t \<and> (\<forall>x \<in> set (c # pre). cmatch k x)"
            using True by simp
          then show ?thesis by blast
        qed
      next
        assume "t \<in> {t. \<exists>pre. pre \<noteq> [] \<and> c # s = pre @ t \<and> (\<forall>c \<in> set pre. cmatch k c)}"
        then obtain pre where pre: "pre \<noteq> []" "c # s = pre @ t" "\<forall>c \<in> set pre. cmatch k c" by auto
        then obtain pre' where p': "pre = c # pre'" "s = pre' @ t" by (cases pre) auto
        show "t \<in> set (plus_rests k (c # s))"
        proof (cases "pre' = []")
          case True
          then show ?thesis using p' \<open>cmatch k c\<close> by simp
        next
          case False
          then have "t \<in> set (plus_rests k s)" using Cons.IH p' pre by auto
          then show ?thesis using \<open>cmatch k c\<close> by simp
        qed
      qed
    qed
  qed
qed

lemma set_rests_Str: "set (rests (Str w) s) = {t. s = w @ t}"
proof -
  have "take (length w) s = w \<Longrightarrow> s = w @ drop (length w) s"
    by (metis append_take_drop_id)
  then show ?thesis by auto
qed

lemma set_rests_One: "set (rests (One k) s) = {t. \<exists>c. s = c # t \<and> cmatch k c}"
  by (cases s) auto

lemma set_rests_Times:
  "set (rests (Times n k) s) = {t. \<exists>ds. s = ds @ t \<and> length ds = n \<and> (\<forall>c \<in> set ds. cmatch k c)}"
proof (rule set_eqI)
  fix t
  show "t \<in> set (rests (Times n k) s) \<longleftrightarrow>
        t \<in> {t. \<exists>ds. s = ds @ t \<and> length ds = n \<and> (\<forall>c \<in> set ds. cmatch k c)}"
  proof
    assume "t \<in> set (rests (Times n k) s)"
    then have "n \<le> length s" "list_all (cmatch k) (take n s)" "t = drop n s"
      by (auto split: if_splits)
    then have "s = take n s @ t \<and> length (take n s) = n \<and> (\<forall>c \<in> set (take n s). cmatch k c)"
      by (simp add: list_all_iff)
    then show "t \<in> {t. \<exists>ds. s = ds @ t \<and> length ds = n \<and> (\<forall>c \<in> set ds. cmatch k c)}"
      by blast
  next
    assume "t \<in> {t. \<exists>ds. s = ds @ t \<and> length ds = n \<and> (\<forall>c \<in> set ds. cmatch k c)}"
    then obtain ds where "s = ds @ t" "length ds = n" "\<forall>c \<in> set ds. cmatch k c" by blast
    then show "t \<in> set (rests (Times n k) s)" by (simp add: list_all_iff)
  qed
qed

lemma set_rests_Cat: "set (rests (Cat a b) s) = (\<Union>t \<in> set (rests a s). set (rests b t))"
  by simp

lemma Match_anchored:
  "anchor_start p \<Longrightarrow> anchor_end p \<Longrightarrow> Match p s \<longleftrightarrow> [] \<in> set (rests (body p) s)"
  by (auto simp: Match_def list_ex_iff)

lemma Match_prefix:
  "anchor_start p \<Longrightarrow> \<not> anchor_end p \<Longrightarrow> Match p s \<longleftrightarrow> rests (body p) s \<noteq> []"
  by (cases "rests (body p) s") (auto simp: Match_def list_ex_iff)

text \<open>
  A name matches \<open>resultDirNamePattern\<close> exactly when it is a non-empty prefix without a
  newline, a hyphen, and seventeen decimal digits.
\<close>

lemma resultDirNamePattern_iff:
  "Match resultDirNamePattern s \<longleftrightarrow>
     (\<exists>pre ds. s = pre @ ''-'' @ ds \<and> pre \<noteq> [] \<and> CHR 0x0A \<notin> set pre \<and> length ds = 17 \<and>
        (\<forall>c \<in> set ds. c \<in> set ''0123456789''))"
  (is "?L \<longleftrightarrow> ?R")
proof -
  have "?L \<longleftrightarrow>
        [] \<in> set (rests (Cat (Plus Dot) (Cat (Str ''-'') (Cat (Times 14 Digit) (Times 3 Digit)))) s)"
    by (simp add: Match_anchored resultDirNamePattern_def del: rests.simps)
  also have "\<dots> \<longleftrightarrow>
        (\<exists>pre. pre \<noteq> [] \<and> (\<forall>c \<in> set pre. cmatch Dot c) \<and>
           (\<exists>a b. s = pre @ ''-'' @ a @ b \<and> length a = 14 \<and> (\<forall>c \<in> set a. cmatch Digit c) \<and>
              length b = 3 \<and> (\<forall>c \<in> set b. cmatch Digit c)))"
  proof -
    have "[] \<in> set (rests (Cat (Plus Dot) (Cat (Str ''-'') (Cat (Times 14 Digit) (Times 3 Digit)))) s) \<longleftrightarrow>
      (\<exists>t1 \<in> set (plus_rests Dot s). \<exists>t2 \<in> set (rests (Str ''-'') t1).
         \<exists>t3 \<in> set (rests (Times 14 Digit) t2). [] \<in> set (rests (Times 3 Digit) t3))"
      by (simp only: set_rests_Cat rests.simps(3) UN_iff)
    also have "\<dots> \<longleftrightarrow>
      (\<exists>t1. (\<exists>pre. pre \<noteq> [] \<and> s = pre @ t1 \<and> (\<forall>c \<in> set pre. cmatch Dot c)) \<and>
         (\<exists>t2. t1 = ''-'' @ t2 \<and>
           (\<exists>t3. (\<exists>a. t2 = a @ t3 \<and> length a = 14 \<and> (\<forall>c \<in> set a. cmatch Digit c)) \<and>
              (\<exists>b. t3 = b @ [] \<and> length b = 3 \<and> (\<forall>c \<in> set b. cmatch Digit c)))))"
      by (simp only: set_rests_Str set_rests_Times set_plus_rests mem_Collect_eq Bex_def)
    also have "\<dots> \<longleftrightarrow>
        (\<exists>pre. pre \<noteq> [] \<and> (\<forall>c \<in> set pre. cmatch Dot c) \<and>
           (\<exists>a b. s = pre @ ''-'' @ a @ b \<and> length a = 14 \<and> (\<forall>c \<in> set a. cmatch Digit c) \<and>
              length b = 3 \<and> (\<forall>c \<in> set b. cmatch Digit c)))"
      by (simp only: append_Nil2) blast
    finally show ?thesis .
  qed
  also have "\<dots> \<longleftrightarrow> ?R"
  proof
    assume "\<exists>pre. pre \<noteq> [] \<and> (\<forall>c \<in> set pre. cmatch Dot c) \<and>
           (\<exists>a b. s = pre @ ''-'' @ a @ b \<and> length a = 14 \<and> (\<forall>c \<in> set a. cmatch Digit c) \<and>
              length b = 3 \<and> (\<forall>c \<in> set b. cmatch Digit c))"
    then obtain pre a b where h: "pre \<noteq> []" "\<forall>c \<in> set pre. cmatch Dot c" "s = pre @ ''-'' @ a @ b"
      "length a = 14" "\<forall>c \<in> set a. cmatch Digit c" "length b = 3" "\<forall>c \<in> set b. cmatch Digit c"
      by blast
    have nl: "CHR 0x0A \<notin> set pre" using h(2) by auto
    have len: "length (a @ b) = 17" using h(4,6) by simp
    have dig: "\<forall>c \<in> set (a @ b). c \<in> set ''0123456789''"
    proof
      fix c assume "c \<in> set (a @ b)"
      then have "c \<in> set a \<or> c \<in> set b" by simp
      then have "cmatch Digit c" using h(5,7) by blast
      then show "c \<in> set ''0123456789''" by simp
    qed
    show ?R using h(1,3) nl len dig by blast
  next
    assume ?R
    then obtain pre ds where h: "s = pre @ ''-'' @ ds" "pre \<noteq> []" "CHR 0x0A \<notin> set pre"
      "length ds = 17" "\<forall>c \<in> set ds. c \<in> set ''0123456789''" by blast
    have dd: "\<forall>c \<in> set ds. cmatch Digit c" using h(5) by simp
    have p1: "\<forall>c \<in> set pre. cmatch Dot c" using h(3) by auto
    have p2: "s = pre @ ''-'' @ take 14 ds @ drop 14 ds" using h(1) by simp
    have p3: "length (take 14 ds) = 14" "length (drop 14 ds) = 3" using h(4) by simp_all
    have p4: "\<forall>c \<in> set (take 14 ds). cmatch Digit c" using dd by (blast dest: in_set_takeD)
    have p5: "\<forall>c \<in> set (drop 14 ds). cmatch Digit c" using dd by (blast dest: in_set_dropD)
    have "pre \<noteq> [] \<and> (\<forall>c \<in> set pre. cmatch Dot c) \<and>
           (s = pre @ ''-'' @ take 14 ds @ drop 14 ds \<and> length (take 14 ds) = 14 \<and>
            (\<forall>c \<in> set (take 14 ds). cmatch Digit c) \<and>
              length (drop 14 ds) = 3 \<and> (\<forall>c \<in> set (drop 14 ds). cmatch Digit c))"
      using h(2) p1 p2 p3 p4 p5 by blast
    then show "\<exists>pre. pre \<noteq> [] \<and> (\<forall>c \<in> set pre. cmatch Dot c) \<and>
           (\<exists>a b. s = pre @ ''-'' @ a @ b \<and> length a = 14 \<and> (\<forall>c \<in> set a. cmatch Digit c) \<and>
              length b = 3 \<and> (\<forall>c \<in> set b. cmatch Digit c))"
      by blast
  qed
  finally show ?thesis .
qed

subsection \<open>The directory walk\<close>

lemma walkFunc_selects:
  "v_info v = Some fi \<Longrightarrow>
   walkFunc st ld (v_path v) (Some fi) e =
     (if selects st v then Ret (Some ErrFound, v_path v) else Ret (None, ld))"
  by (simp add: walkFunc_def selects_def)

lemma Walk_find:
  "\<forall>v \<in> set vs. v_info v \<noteq> None \<Longrightarrow>
   Walk st vs ld =
     (case find (selects st) vs of
        None \<Rightarrow> Ret (None, ld)
      | Some v \<Rightarrow> Ret (Some ErrFound, v_path v))"
proof (induction vs)
  case Nil
  show ?case by simp
next
  case (Cons v vs)
  then obtain fi where fi: "v_info v = Some fi" by auto
  show ?case
  proof (cases "selects st v")
    case True
    then show ?thesis using fi by (simp add: walkFunc_selects)
  next
    case False
    then show ?thesis using fi Cons by (simp add: walkFunc_selects)
  qed
qed

lemma Walk_skips:
  "\<forall>u \<in> set pre. v_info u \<noteq> None \<and> \<not> selects st u \<Longrightarrow>
   Walk st (pre @ rest) ld = Walk st rest ld"
proof (induction pre)
  case Nil
  show ?case by simp
next
  case (Cons u pre)
  then obtain fi where fi: "v_info u = Some fi" by auto
  have "\<not> selects st u" using Cons.prems by simp
  then have "walkFunc st ld (v_path u) (v_info u) (v_err u) = Ret (None, ld)"
    using fi by (simp add: walkFunc_selects)
  then show ?case using Cons by simp
qed

lemma Walk_hit:
  assumes "selects st v"
  shows "Walk st (v # post) ld = Ret (Some ErrFound, v_path v)"
proof -
  from assms obtain fi where fi: "v_info v = Some fi"
    by (auto simp: selects_def split: option.splits)
  then have "walkFunc st ld (v_path v) (v_info v) (v_err v) = Ret (Some ErrFound, v_path v)"
    using assms by (simp add: walkFunc_selects)
  then show ?thesis by simp
qed

text \<open>
  C1, as the code has it. \<open>walkFunc\<close> selects an entry exactly when it is a directory, its
  name matches \<open>resultDirNamePattern\<close> and its modification time, in seconds, is strictly
  greater than the start time minus 60. When the entries before an entry \<open>v\<close> carry a
  \<^verbatim>\<open>FileInfo\<close> and none of them is selected, and \<open>v\<close> is selected, the walk returns \<open>errFound\<close>
  with \<open>logDir\<close> set to the path of \<open>v\<close>, whatever entries would follow: the result is that
  of the walk cut after \<open>v\<close>, so no later entry is looked at, not even one whose call
  would panic. The round of \<open>lookupResultsDir\<close> with that walk ends the loop with that
  path. A walk in which no entry is selected returns nil and leaves \<open>logDir\<close> as it was.
\<close>

theorem C1_walk_selects_first_newer:
  assumes "\<forall>u \<in> set pre. v_info u \<noteq> None"
  shows "(\<forall>v. selects st v \<longleftrightarrow>
            (\<exists>fi. v_info v = Some fi \<and> IsDir fi \<and> Match resultDirNamePattern (Name fi) \<and>
               st - 60 < ModTime fi)) \<and>
         ((\<forall>u \<in> set pre. \<not> selects st u) \<and> selects st v \<longrightarrow>
            Walk st (pre @ v # post) ld = Ret (Some ErrFound, v_path v) \<and>
            Walk st (pre @ v # post) ld = Walk st (pre @ [v]) ld \<and>
            (\<forall>p ps. \<not> wp_done p \<and> wp_visits p dir = pre @ v # post \<longrightarrow>
               lookupResultsDir st dir (p # ps) ld = Some (Ret (None, v_path v)))) \<and>
         ((\<forall>u \<in> set pre. \<not> selects st u) \<longrightarrow> Walk st pre ld = Ret (None, ld))"
proof (intro conjI allI impI)
  fix v
  show "selects st v \<longleftrightarrow>
            (\<exists>fi. v_info v = Some fi \<and> IsDir fi \<and> Match resultDirNamePattern (Name fi) \<and>
               st - 60 < ModTime fi)"
    by (auto simp: selects_def split: option.splits)
next
  assume h: "(\<forall>u \<in> set pre. \<not> selects st u) \<and> selects st v"
  then have sk: "\<forall>u \<in> set pre. v_info u \<noteq> None \<and> \<not> selects st u" using assms by simp
  have w: "Walk st (pre @ rest) ld = Walk st rest ld" for rest
    using sk by (rule Walk_skips)
  have hit: "Walk st (v # rest) ld = Ret (Some ErrFound, v_path v)" for rest
    using h by (blast intro: Walk_hit)
  show r: "Walk st (pre @ v # post) ld = Ret (Some ErrFound, v_path v)"
    by (simp only: w hit)
  show "Walk st (pre @ v # post) ld = Walk st (pre @ [v]) ld"
    by (simp only: w hit)
  fix p :: walk_poll and ps :: "walk_poll list"
  assume "\<not> wp_done p \<and> wp_visits p dir = pre @ v # post"
  then show "lookupResultsDir st dir (p # ps) ld = Some (Ret (None, v_path v))"
    using r by simp
next
  assume "\<forall>u \<in> set pre. \<not> selects st u"
  then have "\<forall>u \<in> set pre. v_info u \<noteq> None \<and> \<not> selects st u" using assms by simp
  then have "Walk st (pre @ []) ld = Walk st [] ld" by (rule Walk_skips)
  then show "Walk st pre ld = Ret (None, ld)" by simp
qed

theorem C1_walk_selects_first_newer_witness:
  "Walk 1700000000
      [\<lparr>v_path = ''/r'', v_info = Some \<lparr>Name = ''r'', Mode = 0x800001ED, ModTime = 1700000200\<rparr>,
         v_err = None\<rparr>,
       \<lparr>v_path = ''/r/sim-20231114221320123'',
         v_info = Some \<lparr>Name = ''sim-20231114221320123'', Mode = 0x800001ED,
                        ModTime = 1699990000\<rparr>,
         v_err = None\<rparr>,
       \<lparr>v_path = ''/r/sim-20231114222000456'',
         v_info = Some \<lparr>Name = ''sim-20231114222000456'', Mode = 0x800001ED,
                        ModTime = 1700000005\<rparr>,
         v_err = None\<rparr>,
       \<lparr>v_path = ''/r/gone'', v_info = None, v_err = Some ErrNotExist\<rparr>] [] =
     Ret (Some ErrFound, ''/r/sim-20231114222000456'') \<and>
   Walk 1700000000
      [\<lparr>v_path = ''/r'', v_info = Some \<lparr>Name = ''r'', Mode = 0x800001ED, ModTime = 1700000200\<rparr>,
         v_err = None\<rparr>,
       \<lparr>v_path = ''/r/sim-20231114221320123'',
         v_info = Some \<lparr>Name = ''sim-20231114221320123'', Mode = 0x800001ED,
                        ModTime = 1699990000\<rparr>,
         v_err = None\<rparr>] [] = Ret (None, [])"
proof -
  let ?a = "\<lparr>v_path = ''/r'', v_info = Some \<lparr>Name = ''r'', Mode = 0x800001ED, ModTime = 1700000200\<rparr>,
         v_err = None\<rparr>"
  let ?b = "\<lparr>v_path = ''/r/sim-20231114221320123'',
         v_info = Some \<lparr>Name = ''sim-20231114221320123'', Mode = 0x800001ED,
                        ModTime = 1699990000\<rparr>,
         v_err = None\<rparr>"
  let ?c = "\<lparr>v_path = ''/r/sim-20231114222000456'',
         v_info = Some \<lparr>Name = ''sim-20231114222000456'', Mode = 0x800001ED,
                        ModTime = 1700000005\<rparr>,
         v_err = None\<rparr>"
  let ?d = "\<lparr>v_path = ''/r/gone'', v_info = None, v_err = Some ErrNotExist\<rparr>"
  have h: "\<forall>u \<in> set [?a, ?b]. v_info u \<noteq> None" by simp
  have na: "\<not> selects 1700000000 ?a"
    by (simp add: selects_def IsDir_def ModeDir_def Match_def resultDirNamePattern_def)
  have nb: "\<not> selects 1700000000 ?b"
    by (simp add: selects_def IsDir_def ModeDir_def Match_def resultDirNamePattern_def)
  have sc: "selects 1700000000 ?c"
    by (simp add: selects_def IsDir_def ModeDir_def Match_def resultDirNamePattern_def)
  have n: "\<forall>u \<in> set [?a, ?b]. \<not> selects 1700000000 u" using na nb by simp
  have "Walk 1700000000 ([?a, ?b] @ ?c # [?d]) [] = Ret (Some ErrFound, v_path ?c)"
    using C1_walk_selects_first_newer [OF h, of 1700000000 ?c "[?d]" "[]"] n sc by blast
  moreover have "Walk 1700000000 [?a, ?b] [] = Ret (None, [])"
    using C1_walk_selects_first_newer [OF h, of 1700000000 ?c "[?d]" "[]"] n by blast
  ultimately show ?thesis by simp
qed

text \<open>
  C1 as stated fails at the bound: a directory whose name matches and whose modification
  time is the start time minus 60 seconds exactly is not selected.
\<close>

theorem C1_counterexample:
  "IsDir \<lparr>Name = ''basicsimulation-20231114221320123'', Mode = 0x800001ED,
          ModTime = 1699999940\<rparr> \<and>
   Match resultDirNamePattern ''basicsimulation-20231114221320123'' \<and>
   (1700000000::int) - 60 \<le> 1699999940 \<and>
   Walk 1700000000
     [\<lparr>v_path = ''/results/basicsimulation-20231114221320123'',
       v_info = Some \<lparr>Name = ''basicsimulation-20231114221320123'', Mode = 0x800001ED,
                      ModTime = 1699999940\<rparr>,
       v_err = None\<rparr>] [] = Ret (None, [])"
  by (simp add: IsDir_def ModeDir_def Match_def resultDirNamePattern_def walkFunc_def)

text \<open>
  C10. \<open>walkFunc\<close> never reads its error argument, and a call with a nil \<^verbatim>\<open>FileInfo\<close>
  panics whatever that argument is, so a walk that reports an entry with an error and
  no \<^verbatim>\<open>FileInfo\<close> panics there, and the round of \<open>lookupResultsDir\<close> with it.
\<close>

theorem C10_walkFunc_nil_info_panics:
  "walkFunc st ld path None err = Panic \<and>
   walkFunc st ld path (Some fi) err = walkFunc st ld path (Some fi) None \<and>
   Walk st (\<lparr>v_path = path, v_info = None, v_err = Some e\<rparr> # vs) ld = Panic \<and>
   lookupResultsDir st dir
     (\<lparr>wp_done = False,
       wp_visits = (\<lambda>d. \<lparr>v_path = path, v_info = None, v_err = Some e\<rparr> # vs)\<rparr> # ps) ld =
     Some Panic"
  by (simp add: walkFunc_def)

theorem C10_walkFunc_nil_info_panics_witness:
  "Walk 1700000000
     [\<lparr>v_path = ''/results'', v_info = None, v_err = Some ErrNotExist\<rparr>] [] = Panic"
  using C10_walkFunc_nil_info_panics
    [of 1700000000 "[]" "''/results''" "Some ErrNotExist" _ ErrNotExist "[]"]
  by simp

subsection \<open>The polling loops\<close>

lemma lookupTargetDir_retry:
  "\<forall>q \<in> set pre. \<not> sp_done q \<and> sp_stat q dir = Inl ErrNotExist \<Longrightarrow>
   lookupTargetDir dir (pre @ rest) = lookupTargetDir dir rest"
  by (induction pre) (auto simp: os_IsNotExist_def)

lemma waitForLog_retry:
  "\<forall>q \<in> set pre. \<not> sp_done q \<and>
      sp_stat q (ld @ ''/'' @ simulationLogFileName) = Inl ErrNotExist \<Longrightarrow>
   waitForLog w ld (pre @ rest) = waitForLog w ld rest"
  by (induction pre) (auto simp: os_IsNotExist_def)

lemma Walk_nil_keeps_logDir:
  "Walk st vs ld = Ret (None, ld') \<Longrightarrow> ld' = ld"
proof (induction vs arbitrary: ld)
  case Nil
  then show ?case by simp
next
  case (Cons v vs)
  then show ?case
    by (auto simp: walkFunc_def Let_def split: option.splits if_splits go.splits prod.splits)
qed

lemma lookupResultsDir_retry:
  "\<forall>q \<in> set pre. \<not> wp_done q \<and> Walk st (wp_visits q dir) ld = Ret (None, ld) \<Longrightarrow>
   lookupResultsDir st dir (pre @ rest) ld = lookupResultsDir st dir rest ld"
  by (induction pre) auto

text \<open>
  C7, as the code has it. While \<^verbatim>\<open>os.Stat\<close> answers that the path does not exist and the
  context is not done, \<open>waitForLog\<close> keeps polling. At the first round with another
  answer it returns: nil exactly when the file is regular and, unless the platform is
  Windows, the number made of its permission bits is at least 420 (octal 644); the error
  "Something wrong happened" when the file exists and fails that test; the error of
  \<^verbatim>\<open>os.Stat\<close> itself when that is another error than "does not exist".
\<close>

theorem C7_waitForLog_outcome:
  assumes "\<forall>q \<in> set pre. \<not> sp_done q \<and>
             sp_stat q (ld @ ''/'' @ simulationLogFileName) = Inl ErrNotExist"
      and "\<not> sp_done p"
  shows "waitForLog w ld pre = None \<and>
         (\<forall>fi. sp_stat p (ld @ ''/'' @ simulationLogFileName) = Inr fi \<longrightarrow>
            waitForLog w ld (pre @ p # post) =
              (if IsRegular (Mode fi) \<and> (w \<or> 420 \<le> Perm (Mode fi)) then Some None
               else Some (Some (ErrNew
                 ''Something wrong happened when attempting to open simulation.log'')))) \<and>
         (\<forall>e. sp_stat p (ld @ ''/'' @ simulationLogFileName) = Inl e \<and> e \<noteq> ErrNotExist \<longrightarrow>
            waitForLog w ld (pre @ p # post) = Some (Some e)) \<and>
         (sp_stat p (ld @ ''/'' @ simulationLogFileName) = Inl ErrNotExist \<longrightarrow>
            waitForLog w ld (pre @ p # post) = waitForLog w ld post)"
proof (intro conjI allI impI)
  have "waitForLog w ld (pre @ []) = waitForLog w ld []"
    using assms(1) by (rule waitForLog_retry)
  then show "waitForLog w ld pre = None" by simp
next
  fix fi
  assume "sp_stat p (ld @ ''/'' @ simulationLogFileName) = Inr fi"
  then show "waitForLog w ld (pre @ p # post) =
              (if IsRegular (Mode fi) \<and> (w \<or> 420 \<le> Perm (Mode fi)) then Some None
               else Some (Some (ErrNew
                 ''Something wrong happened when attempting to open simulation.log'')))"
    using assms(2) by (simp add: waitForLog_retry [OF assms(1)] simulationLogFileName_def)
next
  fix e
  assume "sp_stat p (ld @ ''/'' @ simulationLogFileName) = Inl e \<and> e \<noteq> ErrNotExist"
  then show "waitForLog w ld (pre @ p # post) = Some (Some e)"
    using assms(2) by (simp add: waitForLog_retry [OF assms(1)] os_IsNotExist_def)
next
  assume "sp_stat p (ld @ ''/'' @ simulationLogFileName) = Inl ErrNotExist"
  then show "waitForLog w ld (pre @ p # post) = waitForLog w ld post"
    using assms(2) by (simp add: waitForLog_retry [OF assms(1)] os_IsNotExist_def)
qed

theorem C7_waitForLog_outcome_witness:
  "waitForLog False ''/r/sim-20231114222000456''
     [\<lparr>sp_done = False, sp_stat = (\<lambda>path. Inl ErrNotExist)\<rparr>] = None \<and>
   waitForLog False ''/r/sim-20231114222000456''
     [\<lparr>sp_done = False, sp_stat = (\<lambda>path. Inl ErrNotExist)\<rparr>,
      \<lparr>sp_done = False,
       sp_stat = (\<lambda>path. Inr \<lparr>Name = ''simulation.log'', Mode = 0x1A4, ModTime = 1700000010\<rparr>)\<rparr>] =
     Some None"
proof -
  let ?q = "\<lparr>sp_done = False, sp_stat = (\<lambda>path. Inl ErrNotExist)\<rparr>"
  let ?p = "\<lparr>sp_done = False,
       sp_stat = (\<lambda>path. Inr \<lparr>Name = ''simulation.log'', Mode = 0x1A4, ModTime = 1700000010\<rparr>)\<rparr>"
  have h1: "\<forall>q \<in> set [?q]. \<not> sp_done q \<and>
      sp_stat q (''/r/sim-20231114222000456'' @ ''/'' @ simulationLogFileName) = Inl ErrNotExist"
    by simp
  have h2: "\<not> sp_done ?p" by simp
  show ?thesis
    using C7_waitForLog_outcome [OF h1 h2, of False "[]"]
    by (simp add: IsRegular_def ModeType_def Perm_def ModePerm_def)
qed

text \<open>
  C7 as stated fails: the test compares the permission bits as a number and does not look
  at the group and other read bits. A regular file with mode 0444 (hexadecimal 124) is
  readable by group and others and is refused; one with mode 0700 (hexadecimal 1C0) is
  readable by neither and is accepted.
\<close>

theorem C7_counterexample:
  "IsRegular 0x124 \<and> (0x124 :: 32 word) AND 0x24 = 0x24 \<and>
   waitForLog False ''/r/sim-20231114222000456''
     [\<lparr>sp_done = False,
       sp_stat = (\<lambda>path. Inr \<lparr>Name = ''simulation.log'', Mode = 0x124, ModTime = 1700000010\<rparr>)\<rparr>] =
     Some (Some (ErrNew ''Something wrong happened when attempting to open simulation.log'')) \<and>
   IsRegular 0x1C0 \<and> (0x1C0 :: 32 word) AND 0x24 = 0 \<and>
   waitForLog False ''/r/sim-20231114222000456''
     [\<lparr>sp_done = False,
       sp_stat = (\<lambda>path. Inr \<lparr>Name = ''simulation.log'', Mode = 0x1C0, ModTime = 1700000010\<rparr>)\<rparr>] =
     Some None"
  by (simp add: IsRegular_def ModeType_def Perm_def ModePerm_def simulationLogFileName_def)

lemma RunMain_target_error:
  "lookupTargetDir dir tps = Some (Some e) \<Longrightarrow>
   RunMain st w dir tps rps lps = Some (if e = ErrStoppedByUser then Returned else Exit 1)"
  by (simp add: RunMain_def afterLookup_def)

lemma RunMain_results_error:
  "lookupTargetDir dir tps = Some None \<Longrightarrow>
   lookupResultsDir st dir rps [] = Some (Ret (Some e, ld)) \<Longrightarrow>
   RunMain st w dir tps rps lps = Some (if e = ErrStoppedByUser then Returned else Exit 1)"
  by (simp add: RunMain_def afterLookup_def)

lemma RunMain_log_error:
  "lookupTargetDir dir tps = Some None \<Longrightarrow>
   lookupResultsDir st dir rps [] = Some (Ret (None, ld)) \<Longrightarrow>
   waitForLog w ld lps = Some (Some e) \<Longrightarrow>
   RunMain st w dir tps rps lps = Some (if e = ErrStoppedByUser then Returned else Exit 1)"
  by (simp add: RunMain_def afterLookup_def)

text \<open>
  C9. In each of the three Resolver loops, a round that finds the context done returns
  \<open>errStoppedByUser\<close>, whatever the file system holds, also after any number of rounds
  that only waited. \<open>RunMain\<close> returns plainly when a loop ends with \<open>errStoppedByUser\<close>
  and calls \<^verbatim>\<open>os.Exit(1)\<close> when a loop ends with any other error.
\<close>

theorem C9_stop_is_clean_return:
  "((\<forall>q \<in> set pre. \<not> sp_done q \<and> sp_stat q dir = Inl ErrNotExist) \<and> sp_done p \<longrightarrow>
      lookupTargetDir dir (pre @ p # post) = Some (Some ErrStoppedByUser)) \<and>
   ((\<forall>q \<in> set wpre. \<not> wp_done q \<and> Walk st (wp_visits q dir) ld = Ret (None, ld)) \<and>
      wp_done wp \<longrightarrow>
      lookupResultsDir st dir (wpre @ wp # wpost) ld = Some (Ret (Some ErrStoppedByUser, ld))) \<and>
   ((\<forall>q \<in> set pre. \<not> sp_done q \<and>
        sp_stat q (ld @ ''/'' @ simulationLogFileName) = Inl ErrNotExist) \<and> sp_done p \<longrightarrow>
      waitForLog w ld (pre @ p # post) = Some (Some ErrStoppedByUser)) \<and>
   (lookupTargetDir dir tps = Some (Some e) \<longrightarrow>
      RunMain st w dir tps rps lps = Some (if e = ErrStoppedByUser then Returned else Exit 1)) \<and>
   (lookupTargetDir dir tps = Some None \<and>
    lookupResultsDir st dir rps [] = Some (Ret (Some e, ld')) \<longrightarrow>
      RunMain st w dir tps rps lps = Some (if e = ErrStoppedByUser then Returned else Exit 1)) \<and>
   (lookupTargetDir dir tps = Some None \<and>
    lookupResultsDir st dir rps [] = Some (Ret (None, ld')) \<and>
    waitForLog w ld' lps = Some (Some e) \<longrightarrow>
      RunMain st w dir tps rps lps = Some (if e = ErrStoppedByUser then Returned else Exit 1))"
proof (intro conjI impI)
  assume "(\<forall>q \<in> set pre. \<not> sp_done q \<and> sp_stat q dir = Inl ErrNotExist) \<and> sp_done p"
  then show "lookupTargetDir dir (pre @ p # post) = Some (Some ErrStoppedByUser)"
    by (simp add: lookupTargetDir_retry)
next
  assume "(\<forall>q \<in> set wpre. \<not> wp_done q \<and> Walk st (wp_visits q dir) ld = Ret (None, ld)) \<and>
      wp_done wp"
  then show "lookupResultsDir st dir (wpre @ wp # wpost) ld =
      Some (Ret (Some ErrStoppedByUser, ld))"
    by (simp add: lookupResultsDir_retry)
next
  assume "(\<forall>q \<in> set pre. \<not> sp_done q \<and>
        sp_stat q (ld @ ''/'' @ simulationLogFileName) = Inl ErrNotExist) \<and> sp_done p"
  then show "waitForLog w ld (pre @ p # post) = Some (Some ErrStoppedByUser)"
    by (simp add: waitForLog_retry)
next
  assume "lookupTargetDir dir tps = Some (Some e)"
  then show "RunMain st w dir tps rps lps =
      Some (if e = ErrStoppedByUser then Returned else Exit 1)"
    by (rule RunMain_target_error)
next
  assume "lookupTargetDir dir tps = Some None \<and>
    lookupResultsDir st dir rps [] = Some (Ret (Some e, ld'))"
  then show "RunMain st w dir tps rps lps =
      Some (if e = ErrStoppedByUser then Returned else Exit 1)"
    by (simp add: RunMain_results_error)
next
  assume "lookupTargetDir dir tps = Some None \<and>
    lookupResultsDir st dir rps [] = Some (Ret (None, ld')) \<and>
    waitForLog w ld' lps = Some (Some e)"
  then show "RunMain st w dir tps rps lps =
      Some (if e = ErrStoppedByUser then Returned else Exit 1)"
    by (simp add: RunMain_log_error)
qed

theorem C9_stop_is_clean_return_witness:
  "lookupTargetDir ''/results''
     [\<lparr>sp_done = False, sp_stat = (\<lambda>path. Inl ErrNotExist)\<rparr>,
      \<lparr>sp_done = True, sp_stat = (\<lambda>path. Inl ErrNotExist)\<rparr>] = Some (Some ErrStoppedByUser) \<and>
   RunMain 1700000000 False ''/results''
     [\<lparr>sp_done = False, sp_stat = (\<lambda>path. Inl ErrNotExist)\<rparr>,
      \<lparr>sp_done = True, sp_stat = (\<lambda>path. Inl ErrNotExist)\<rparr>] [] [] = Some Returned \<and>
   lookupTargetDir ''/results''
     [\<lparr>sp_done = False,
       sp_stat = (\<lambda>path. Inr \<lparr>Name = ''results'', Mode = 0x1A4, ModTime = 1700000000\<rparr>)\<rparr>] =
     Some (Some (ErrNew ''Was expecting directory at /results, but found a file'')) \<and>
   RunMain 1700000000 False ''/results''
     [\<lparr>sp_done = False,
       sp_stat = (\<lambda>path. Inr \<lparr>Name = ''results'', Mode = 0x1A4, ModTime = 1700000000\<rparr>)\<rparr>] [] [] =
     Some (Exit 1)"
proof -
  let ?q = "\<lparr>sp_done = False, sp_stat = (\<lambda>path. Inl ErrNotExist)\<rparr>"
  let ?p = "\<lparr>sp_done = True, sp_stat = (\<lambda>path. Inl ErrNotExist)\<rparr>"
  let ?f = "\<lparr>sp_done = False,
       sp_stat = (\<lambda>path. Inr \<lparr>Name = ''results'', Mode = 0x1A4, ModTime = 1700000000\<rparr>)\<rparr>"
  have stop: "lookupTargetDir ''/results'' ([?q] @ ?p # []) = Some (Some ErrStoppedByUser)"
    using C9_stop_is_clean_return [of "[?q]" "''/results''" ?p "[]"] by simp
  have isfile: "lookupTargetDir ''/results'' [?f] =
     Some (Some (ErrNew ''Was expecting directory at /results, but found a file''))"
    by (simp add: IsDir_def ModeDir_def)
  have "RunMain 1700000000 False ''/results'' ([?q] @ ?p # []) [] [] = Some Returned"
    using C9_stop_is_clean_return
      [of "[]" "''/results''" ?p "[]" "[]" 1700000000 "[]" _ "[]" False "[?q] @ ?p # []"
          ErrStoppedByUser "[]" "[]"] stop
    by simp
  moreover have "RunMain 1700000000 False ''/results'' [?f] [] [] = Some (Exit 1)"
    using C9_stop_is_clean_return
      [of "[]" "''/results''" ?p "[]" "[]" 1700000000 "[]" _ "[]" False "[?f]"
          "ErrNew ''Was expecting directory at /results, but found a file''" "[]" "[]"] isfile
    by simp
  ultimately show ?thesis using stop isfile by simp
qed


subsection \<open>Timestamp conversion\<close>

lemma sint_int64:
  "- (2 ^ 63) \<le> k \<Longrightarrow> k < 2 ^ 63 \<Longrightarrow> sint (word_of_int k :: 64 word) = k"
  by (simp add: signed_of_int signed_take_bit_int_eq_self)

lemma nanoseconds_exact:
  assumes "- 9223372036854 \<le> t" "t \<le> 9223372036853" "0 \<le> r" "r < oneMillisecond"
  shows "sint (word_of_int t * word_of_int oneMillisecond + word_of_int r :: 64 word) =
         t * oneMillisecond + r"
proof -
  have "word_of_int t * word_of_int oneMillisecond + word_of_int r =
        (word_of_int (t * oneMillisecond + r) :: 64 word)"
    by simp
  moreover have "- (2 ^ 63) \<le> t * oneMillisecond + r" "t * oneMillisecond + r < 2 ^ 63"
    using assms by (simp_all add: oneMillisecond_def)
  ultimately show ?thesis by (simp only: sint_int64)
qed

text \<open>
  The jitter comes from the argument of \<^verbatim>\<open>rand.Int63n\<close>: the call with \<open>oneMillisecond\<close>
  never panics and its result lies in \<open>[0, oneMillisecond)\<close>, whatever the generator
  delivers.
\<close>

lemma rand_Int63n_oneMillisecond:
  "rand_Int63n oneMillisecond v = Ret (uint v mod oneMillisecond) \<and>
   0 \<le> uint v mod oneMillisecond \<and> uint v mod oneMillisecond < oneMillisecond"
  by (simp add: rand_Int63n_def oneMillisecond_def)

lemma timeFromUnixBytes_in_range:
  assumes "ParseInt ub = Inr t" "- 9223372036854 \<le> t" "t \<le> 9223372036853"
  shows "timeFromUnixBytes ub v = Ret (Inr (t * oneMillisecond + uint v mod oneMillisecond))"
proof -
  have j: "0 \<le> uint v mod oneMillisecond" "uint v mod oneMillisecond < oneMillisecond"
    using rand_Int63n_oneMillisecond [of v] by simp_all
  have "sint (word_of_int t * word_of_int oneMillisecond +
          word_of_int (uint v mod oneMillisecond) :: 64 word) =
        t * oneMillisecond + uint v mod oneMillisecond"
    using assms(2,3) j by (rule nanoseconds_exact)
  then show ?thesis
    using assms(1) rand_Int63n_oneMillisecond [of v]
    by (simp add: timeFromUnixBytes_def time_Unix_def)
qed

lemma ParseUint_loop_digits:
  "ParseUint_loop n s = (un, None) \<Longrightarrow> \<forall>c \<in> set s. isDigit c"
  by (induction s arbitrary: n) (auto simp: Let_def split: if_splits)

lemma ParseInt_syntax:
  assumes "ParseInt ub = Inr t"
  shows "\<exists>sign ds. ub = sign @ ds \<and> (sign = [] \<or> sign = ''+'' \<or> sign = ''-'') \<and> ds \<noteq> [] \<and>
           (\<forall>c \<in> set ds. isDigit c)"
proof -
  from assms have ne: "ub \<noteq> []" by (auto simp: ParseInt_def)
  define s1 where "s1 = (if hd ub = CHR ''+'' \<or> hd ub = CHR ''-'' then tl ub else ub)"
  obtain un err where pu: "ParseUint s1 = (un, err)" by (cases "ParseUint s1")
  have e: "err = None \<or> err = Some ErrRange"
    using assms ne pu
    by (auto simp: ParseInt_def Let_def s1_def split: if_splits option.splits)
  have s1ne: "s1 \<noteq> []"
  proof
    assume "s1 = []"
    then have "err = Some ErrSyntax" using pu by (simp add: ParseUint_def)
    then show False using e by simp
  qed
  have "err = None"
  proof (rule ccontr)
    assume "err \<noteq> None"
    then have r: "err = Some ErrRange" using e by blast
    have "snd (ParseUint_loop n s) = Some ErrRange \<Longrightarrow> fst (ParseUint_loop n s) = maxUint64" for n s
      by (induction s arbitrary: n) (auto simp: Let_def split: if_splits)
    then have "un = maxUint64" using pu r s1ne by (simp add: ParseUint_def) (metis fst_conv snd_conv)
    then show False
      using assms ne pu r
      by (auto simp: ParseInt_def Let_def s1_def maxUint64_def split: if_splits)
  qed
  then have "ParseUint_loop 0 s1 = (un, None)" using pu s1ne by (simp add: ParseUint_def)
  then have dig: "\<forall>c \<in> set s1. isDigit c" by (rule ParseUint_loop_digits)
  show ?thesis
  proof (cases "hd ub = CHR ''+'' \<or> hd ub = CHR ''-''")
    case True
    then have "ub = [hd ub] @ s1" using ne by (simp add: s1_def)
    moreover have "[hd ub] = ''+'' \<or> [hd ub] = ''-''" using True by auto
    ultimately show ?thesis using s1ne dig by blast
  next
    case False
    then have "ub = [] @ s1" by (simp add: s1_def)
    then show ?thesis using s1ne dig by blast
  qed
qed

lemma ParseInt_error:
  "ParseInt ub = Inl e \<Longrightarrow>
   e = NumError ''ParseInt'' ub ErrSyntax \<or> e = NumError ''ParseInt'' ub ErrRange"
proof -
  have k: "snd (ParseUint_loop n s) = None \<or> snd (ParseUint_loop n s) = Some ErrSyntax \<or>
        snd (ParseUint_loop n s) = Some ErrRange" for n s
    by (induction s arbitrary: n) (auto simp: Let_def split: if_splits)
  have k': "snd (ParseUint s) = None \<or> snd (ParseUint s) = Some ErrSyntax \<or>
        snd (ParseUint s) = Some ErrRange" for s
    using k by (simp add: ParseUint_def)
  assume "ParseInt ub = Inl e"
  then show ?thesis
    using k' [of "if hd ub = CHR ''+'' \<or> hd ub = CHR ''-'' then tl ub else ub"]
    by (auto simp: ParseInt_def Let_def split: if_splits option.splits prod.splits)
qed

lemma ParseInt_range: "ParseInt ub = Inr t \<Longrightarrow> - (2 ^ 63) \<le> t \<and> t < 2 ^ 63"
  by (auto simp: ParseInt_def Let_def split: if_splits option.splits prod.splits)


text \<open>
  C6, as the code has it. For a byte string that \<^verbatim>\<open>ParseInt\<close> reads as \<open>t\<close> with
  \<open>-9223372036854 \<le> t \<le> 9223372036853\<close> (the timestamps whose nanosecond count, with any
  jitter, fits 64 bits), the conversion returns, for every value \<open>v\<close> of the generator,
  \<open>t\<close> milliseconds plus the jitter \<^verbatim>\<open>v % oneMillisecond\<close>, which lies in \<open>[0, 1 ms)\<close>; of
  two such timestamps the smaller one gets the strictly earlier event time, whatever the
  generator delivers for the two calls. A byte string that is not an optional sign
  followed by decimal digits gives an error, and every error of \<^verbatim>\<open>ParseInt\<close>, a
  \<^verbatim>\<open>*NumError\<close> for a syntax or a range error, is returned wrapped.
\<close>

theorem C6_timeFromUnixBytes_in_range:
  "(ParseInt ub = Inr t \<and> - 9223372036854 \<le> t \<and> t \<le> 9223372036853 \<longrightarrow>
      timeFromUnixBytes ub v = Ret (Inr (t * oneMillisecond + uint v mod oneMillisecond)) \<and>
      0 \<le> uint v mod oneMillisecond \<and> uint v mod oneMillisecond < oneMillisecond \<and>
      t * oneMillisecond \<le> t * oneMillisecond + uint v mod oneMillisecond \<and>
      t * oneMillisecond + uint v mod oneMillisecond < (t + 1) * oneMillisecond) \<and>
   (ParseInt ub1 = Inr t1 \<and> ParseInt ub2 = Inr t2 \<and> t1 < t2 \<and>
    - 9223372036854 \<le> t1 \<and> t2 \<le> 9223372036853 \<longrightarrow>
      (\<exists>e1 e2. timeFromUnixBytes ub1 v1 = Ret (Inr e1) \<and>
         timeFromUnixBytes ub2 v2 = Ret (Inr e2) \<and> e1 < e2)) \<and>
   ((\<nexists>sign ds. ub = sign @ ds \<and> (sign = [] \<or> sign = ''+'' \<or> sign = ''-'') \<and> ds \<noteq> [] \<and>
        (\<forall>c \<in> set ds. isDigit c)) \<longrightarrow>
      (\<exists>k. timeFromUnixBytes ub v =
         Ret (Inl (ErrWrap ''Failed to parse timestamp as integer: ''
                (NumError ''ParseInt'' ub k))))) \<and>
   (ParseInt ub = Inl e \<longrightarrow>
      timeFromUnixBytes ub v = Ret (Inl (ErrWrap ''Failed to parse timestamp as integer: '' e)) \<and>
      (e = NumError ''ParseInt'' ub ErrSyntax \<or> e = NumError ''ParseInt'' ub ErrRange))"
proof (intro conjI impI)
  have j: "0 \<le> uint v mod oneMillisecond" "uint v mod oneMillisecond < oneMillisecond"
    using rand_Int63n_oneMillisecond [of v] by simp_all
  show "0 \<le> uint v mod oneMillisecond" by (rule j)
  show "uint v mod oneMillisecond < oneMillisecond" by (rule j)
  show "t * oneMillisecond \<le> t * oneMillisecond + uint v mod oneMillisecond"
    using j by simp
  show "t * oneMillisecond + uint v mod oneMillisecond < (t + 1) * oneMillisecond"
    using j by (simp add: algebra_simps)
  assume "ParseInt ub = Inr t \<and> - 9223372036854 \<le> t \<and> t \<le> 9223372036853"
  then show "timeFromUnixBytes ub v =
      Ret (Inr (t * oneMillisecond + uint v mod oneMillisecond))"
    by (simp add: timeFromUnixBytes_in_range)
next
  assume h: "ParseInt ub1 = Inr t1 \<and> ParseInt ub2 = Inr t2 \<and> t1 < t2 \<and>
    - 9223372036854 \<le> t1 \<and> t2 \<le> 9223372036853"
  have j1: "0 \<le> uint v1 mod oneMillisecond" "uint v1 mod oneMillisecond < oneMillisecond"
    using rand_Int63n_oneMillisecond [of v1] by simp_all
  have j2: "0 \<le> uint v2 mod oneMillisecond" "uint v2 mod oneMillisecond < oneMillisecond"
    using rand_Int63n_oneMillisecond [of v2] by simp_all
  from h have e1: "timeFromUnixBytes ub1 v1 =
      Ret (Inr (t1 * oneMillisecond + uint v1 mod oneMillisecond))"
    by (simp add: timeFromUnixBytes_in_range)
  from h have e2: "timeFromUnixBytes ub2 v2 =
      Ret (Inr (t2 * oneMillisecond + uint v2 mod oneMillisecond))"
    by (simp add: timeFromUnixBytes_in_range)
  from h have "t1 + 1 \<le> t2" by simp
  then have "(t1 + 1) * oneMillisecond \<le> t2 * oneMillisecond"
    by (simp add: oneMillisecond_def)
  moreover have "(t1 + 1) * oneMillisecond = t1 * oneMillisecond + oneMillisecond"
    by (simp add: algebra_simps)
  ultimately have "t1 * oneMillisecond + uint v1 mod oneMillisecond <
      t2 * oneMillisecond + uint v2 mod oneMillisecond"
    using j1(2) j2(1) by linarith
  then show "\<exists>e1 e2. timeFromUnixBytes ub1 v1 = Ret (Inr e1) \<and>
         timeFromUnixBytes ub2 v2 = Ret (Inr e2) \<and> e1 < e2"
    using e1 e2 by blast
next
  assume n: "\<nexists>sign ds. ub = sign @ ds \<and> (sign = [] \<or> sign = ''+'' \<or> sign = ''-'') \<and> ds \<noteq> [] \<and>
        (\<forall>c \<in> set ds. isDigit c)"
  have "\<exists>e. ParseInt ub = Inl e"
  proof (cases "ParseInt ub")
    case (Inl e)
    then show ?thesis by blast
  next
    case (Inr t)
    then show ?thesis using ParseInt_syntax n by blast
  qed
  then obtain e where e: "ParseInt ub = Inl e" by blast
  then have "e = NumError ''ParseInt'' ub ErrSyntax \<or> e = NumError ''ParseInt'' ub ErrRange"
    by (rule ParseInt_error)
  then obtain k where "e = NumError ''ParseInt'' ub k" by blast
  then show "\<exists>k. timeFromUnixBytes ub v =
         Ret (Inl (ErrWrap ''Failed to parse timestamp as integer: ''
                (NumError ''ParseInt'' ub k)))"
    using e by (simp add: timeFromUnixBytes_def)
next
  assume "ParseInt ub = Inl e"
  then show "timeFromUnixBytes ub v =
      Ret (Inl (ErrWrap ''Failed to parse timestamp as integer: '' e))"
    by (simp add: timeFromUnixBytes_def)
next
  assume "ParseInt ub = Inl e"
  then show "e = NumError ''ParseInt'' ub ErrSyntax \<or> e = NumError ''ParseInt'' ub ErrRange"
    by (rule ParseInt_error)
qed

theorem C6_timeFromUnixBytes_in_range_witness:
  "ParseInt ''1700000000000'' = Inr 1700000000000 \<and>
   timeFromUnixBytes ''1700000000000'' 1234567890123 = Ret (Inr 1700000000000890123) \<and>
   timeFromUnixBytes ''1700000000001'' 0 = Ret (Inr 1700000000001000000) \<and>
   ParseInt ''17e11'' = Inl (NumError ''ParseInt'' ''17e11'' ErrSyntax) \<and>
   timeFromUnixBytes ''17e11'' 0 =
     Ret (Inl (ErrWrap ''Failed to parse timestamp as integer: ''
            (NumError ''ParseInt'' ''17e11'' ErrSyntax)))"
proof -
  have p1: "ParseInt ''1700000000000'' = Inr 1700000000000"
    by (simp add: ParseInt_def ParseUint_def isDigit_def maxUint64_def)
  have p2: "ParseInt ''1700000000001'' = Inr 1700000000001"
    by (simp add: ParseInt_def ParseUint_def isDigit_def maxUint64_def)
  have p3: "ParseInt ''17e11'' = Inl (NumError ''ParseInt'' ''17e11'' ErrSyntax)"
    by (simp add: ParseInt_def ParseUint_def isDigit_def maxUint64_def)
  have "timeFromUnixBytes ''1700000000000'' 1234567890123 = Ret (Inr 1700000000000890123)"
    using C6_timeFromUnixBytes_in_range
      [where ub = "''1700000000000''" and t = 1700000000000 and v = 1234567890123] p1
    by (simp add: oneMillisecond_def)
  moreover have "timeFromUnixBytes ''1700000000001'' 0 = Ret (Inr 1700000000001000000)"
    using C6_timeFromUnixBytes_in_range
      [where ub = "''1700000000001''" and t = 1700000000001 and v = 0] p2
    by (simp add: oneMillisecond_def)
  moreover have "timeFromUnixBytes ''17e11'' 0 =
     Ret (Inl (ErrWrap ''Failed to parse timestamp as integer: ''
            (NumError ''ParseInt'' ''17e11'' ErrSyntax)))"
    using C6_timeFromUnixBytes_in_range
      [where ub = "''17e11''" and v = 0 and e = "NumError ''ParseInt'' ''17e11'' ErrSyntax"] p3
    by simp
  ultimately show ?thesis using p1 p3 by simp
qed

text \<open>
  C6 as stated fails for a timestamp that fits 64 bits while its nanosecond count does
  not: 9223372036855 ms is converted to an instant before the epoch, which is neither
  within a millisecond of the source timestamp nor later than the event time of the
  smaller timestamp 0.
\<close>

theorem C6_counterexample:
  "ParseInt ''9223372036855'' = Inr 9223372036855 \<and>
   timeFromUnixBytes ''9223372036855'' 0 = Ret (Inr (- 9223372036854551616)) \<and>
   ParseInt ''0'' = Inr 0 \<and>
   timeFromUnixBytes ''0'' 0 = Ret (Inr 0) \<and>
   (0::int) < 9223372036855 \<and>
   (- 9223372036854551616 :: int) < 0"
  by (simp add: timeFromUnixBytes_def ParseInt_def ParseUint_def isDigit_def maxUint64_def
      oneMillisecond_def time_Unix_def rand_Int63n_def)


subsection \<open>The tailing loop\<close>


lemma loopBody_eof:
  "\<not> rp_done p \<Longrightarrow> rp_err p = Some ErrEOF \<Longrightarrow>
   loopBody P w gv p st =
     (if rp_now p - startWait st > idleTimeout w then
        Break (st\<lparr>logged := logged st @ [NoNewLines]\<rparr>)
      else Continue (st\<lparr>buf := buf st @ rp_bytes p, sleeps := sleeps st + 1\<rparr>))"
  by (simp add: loopBody_def) 





lemma loopBody_continue_bytes:
  assumes "loopBody P w gv p st = Continue st'"
  shows "concat (dispatched st') @ buf st' = concat (dispatched st) @ buf st @ rp_bytes p"
  using assms
  by (auto simp: loopBody_def Let_def split: if_splits option.splits prod.splits)

lemma ParseLoop_continue_bytes:
  "ParseLoop P w gv polls st = Continue st' \<Longrightarrow>
   concat (dispatched st') @ buf st' =
     concat (dispatched st) @ buf st @ concat (map rp_bytes polls)"
proof (induction polls arbitrary: st)
  case Nil
  then show ?case by simp
next
  case (Cons p polls)
  then obtain st1 where b: "loopBody P w gv p st = Continue st1"
    and r: "ParseLoop P w gv polls st1 = Continue st'"
    by (auto split: flow.splits)
  have "concat (dispatched st') @ buf st' =
     concat (dispatched st1) @ buf st1 @ concat (map rp_bytes polls)"
    using r by (rule Cons.IH)
  also have "\<dots> = (concat (dispatched st) @ buf st @ rp_bytes p) @ concat (map rp_bytes polls)"
    using loopBody_continue_bytes [OF b] by simp
  finally show ?case by simp
qed






text \<open>
  C8, as the code has it. A round that reads \<^verbatim>\<open>io.EOF\<close> and after which the loop goes on
  has appended the fragment it read to the buffer and handed nothing to
  \<open>stringProcessor\<close>. As long as the loop runs, the lines handed to \<open>stringProcessor\<close>
  followed by the buffer are exactly the bytes read so far, so no byte is lost from one
  round to the next. The round that leaves the loop on the idle timeout does not append
  its fragment: the buffer is left as it was.
\<close>

theorem C8_fragment_kept_while_running:
  "(\<not> rp_done p \<and> rp_err p = Some ErrEOF \<and> loopBody P w gv p st = Continue st' \<longrightarrow>
      buf st' = buf st @ rp_bytes p \<and> dispatched st' = dispatched st) \<and>
   (ParseLoop P w gv polls st = Continue st' \<longrightarrow>
      concat (dispatched st') @ buf st' =
        concat (dispatched st) @ buf st @ concat (map rp_bytes polls)) \<and>
   (\<not> rp_done p \<and> rp_err p = Some ErrEOF \<and> loopBody P w gv p st = Break st' \<longrightarrow>
      buf st' = buf st \<and> dispatched st' = dispatched st)"
proof (intro conjI impI)
  assume "\<not> rp_done p \<and> rp_err p = Some ErrEOF \<and> loopBody P w gv p st = Continue st'"
  then show "buf st' = buf st @ rp_bytes p" "dispatched st' = dispatched st"
    by (auto simp: loopBody_eof split: if_splits)
next
  assume "ParseLoop P w gv polls st = Continue st'"
  then show "concat (dispatched st') @ buf st' =
        concat (dispatched st) @ buf st @ concat (map rp_bytes polls)"
    by (rule ParseLoop_continue_bytes)
next
  assume "\<not> rp_done p \<and> rp_err p = Some ErrEOF \<and> loopBody P w gv p st = Break st'"
  then show "buf st' = buf st" "dispatched st' = dispatched st"
    by (auto simp: loopBody_eof split: if_splits)
qed

theorem C8_fragment_kept_while_running_witness:
  "ParseLoop acceptingParsers 120 []
     [\<lparr>rp_done = False, rp_bytes = ''USER'', rp_err = Some ErrEOF, rp_now = 1000000000\<rparr>,
      \<lparr>rp_done = False, rp_bytes = [CHR 0x09, CHR ''a'', CHR 0x0A], rp_err = None,
        rp_now = 2000000000\<rparr>,
      \<lparr>rp_done = False, rp_bytes = ''RE'', rp_err = Some ErrEOF, rp_now = 3000000000\<rparr>]
     (reader0 0 ()) =
     Continue \<lparr>buf = ''RE'', startWait = 2000000000, pstate = (),
                dispatched = [[CHR ''U'', CHR ''S'', CHR ''E'', CHR ''R'', CHR 0x09, CHR ''a'',
                               CHR 0x0A]],
                sleeps = 2, logged = [], sent = 0\<rparr> \<and>
   concat [[CHR ''U'', CHR ''S'', CHR ''E'', CHR ''R'', CHR 0x09, CHR ''a'', CHR 0x0A]] @ ''RE'' =
     concat (dispatched (reader0 0 ())) @ buf (reader0 0 ()) @
       concat (map rp_bytes
         [\<lparr>rp_done = False, rp_bytes = ''USER'', rp_err = Some ErrEOF, rp_now = 1000000000\<rparr>,
          \<lparr>rp_done = False, rp_bytes = [CHR 0x09, CHR ''a'', CHR 0x0A], rp_err = None,
            rp_now = 2000000000\<rparr>,
          \<lparr>rp_done = False, rp_bytes = ''RE'', rp_err = Some ErrEOF, rp_now = 3000000000\<rparr>])"
proof -
  let ?polls = "[\<lparr>rp_done = False, rp_bytes = ''USER'', rp_err = Some ErrEOF, rp_now = 1000000000\<rparr>,
      \<lparr>rp_done = False, rp_bytes = [CHR 0x09, CHR ''a'', CHR 0x0A], rp_err = None,
        rp_now = 2000000000\<rparr>,
      \<lparr>rp_done = False, rp_bytes = ''RE'', rp_err = Some ErrEOF, rp_now = 3000000000\<rparr>]"
  let ?st' = "\<lparr>buf = ''RE'', startWait = 2000000000, pstate = (),
                dispatched = [[CHR ''U'', CHR ''S'', CHR ''E'', CHR ''R'', CHR 0x09, CHR ''a'',
                               CHR 0x0A]],
                sleeps = 2, logged = [], sent = 0\<rparr>"
  have run: "ParseLoop acceptingParsers 120 [] ?polls (reader0 0 ()) = Continue ?st'"
    by (simp add: loopBody_def idleTimeout_def reader0_def stringProcessor_def
        acceptingParsers_def Let_def Match_def requestLine_def groupLine_def userLine_def)
  show ?thesis
    using C8_fragment_kept_while_running
      [where P = acceptingParsers and w = 120 and gv = "[]" and polls = ?polls
         and st = "reader0 0 ()" and st' = ?st'] run
    by simp
qed

text \<open>
  C8 as stated fails on the way out: a round that reads \<^verbatim>\<open>io.EOF\<close> with the fragment
  \<open>REQUEST\<close> 121 seconds after \<open>startWait\<close>, the threshold being 120 seconds, leaves the
  loop with the buffer still empty.
\<close>

theorem C8_counterexample:
  "loopBody acceptingParsers 120 []
     \<lparr>rp_done = False, rp_bytes = ''REQUEST'', rp_err = Some ErrEOF, rp_now = 121 * 1000000000\<rparr>
     (reader0 0 ()) = Break ((reader0 0 ())\<lparr>logged := [NoNewLines]\<rparr>) \<and>
   buf ((reader0 0 ())\<lparr>logged := [NoNewLines]\<rparr>) = [] \<and>
   fileProcessor acceptingParsers 120 [] 0 ()
     [\<lparr>rp_done = False, rp_bytes = ''REQUEST'', rp_err = Some ErrEOF,
       rp_now = 121 * 1000000000\<rparr>] =
     Some \<lparr>buf = [], startWait = 0, pstate = (), dispatched = [], sleeps = 0,
           logged = [NoNewLines], sent = 1\<rparr>"
  by (simp add: idleTimeout_def loopBody_def fileProcessor_def reader0_def)

subsection \<open>Line classification\<close>

lemma Match_anchored_word:
  "Match \<lparr>anchor_start = True, body = Cat (Str w) (One Space), anchor_end = False\<rparr> s \<longleftrightarrow>
     (\<exists>c t. s = w @ c # t \<and> cmatch Space c)"
proof -
  have "Match \<lparr>anchor_start = True, body = Cat (Str w) (One Space), anchor_end = False\<rparr> s \<longleftrightarrow>
        set (rests (Cat (Str w) (One Space)) s) \<noteq> {}"
    by (simp add: Match_prefix del: rests.simps)
  also have "\<dots> \<longleftrightarrow> (\<exists>c t. s = w @ c # t \<and> cmatch Space c)"
    unfolding set_rests_Cat set_rests_Str set_rests_One by blast
  finally show ?thesis .
qed

lemma Match_anchored_word_two:
  assumes "Match \<lparr>anchor_start = True, body = Cat (Str (a # b # w)) (One Space),
                  anchor_end = False\<rparr> s"
  shows "\<exists>t. s = a # b # t"
proof -
  from assms obtain c t where "s = (a # b # w) @ c # t"
    unfolding Match_anchored_word by blast
  then have "s = a # b # (w @ c # t)" by simp
  then show ?thesis by blast
qed

text \<open>
  The four patterns that start with \<^verbatim>\<open>^\<close> exclude one another: a line starts with at most
  one of \<open>USER\<close>, \<open>REQUEST\<close>, \<open>RUN\<close> and \<open>ERROR\<close>.
\<close>

lemma anchored_patterns_exclusive:
  "\<not> (Match userLine s \<and> Match requestLine s)"
  "\<not> (Match userLine s \<and> Match runLine s)"
  "\<not> (Match userLine s \<and> Match errorLine s)"
  "\<not> (Match requestLine s \<and> Match runLine s)"
  "\<not> (Match requestLine s \<and> Match errorLine s)"
  "\<not> (Match runLine s \<and> Match errorLine s)"
  unfolding userLine_def requestLine_def runLine_def errorLine_def
  by (auto dest!: Match_anchored_word_two)

lemma stringProcessor_unknown:
  "\<not> Match requestLine l \<Longrightarrow> \<not> Match groupLine l \<Longrightarrow> \<not> Match userLine l \<Longrightarrow>
   \<not> Match errorLine l \<Longrightarrow> \<not> Match runLine l \<Longrightarrow>
   stringProcessor P l gv ps = (Some (ErrNew ''Unknown line type encountered''), ps)"
  by (simp add: stringProcessor_def)

text \<open>
  C4. The pattern \<open>groupLine\<close> has no \<^verbatim>\<open>^\<close>, so it matches a line that holds \<open>GROUP\<close> and
  a blank anywhere. The User record of a scenario named "GROUP A" matches both \<open>userLine\<close>
  and \<open>groupLine\<close>, and \<open>stringProcessor\<close>, which tries \<open>groupLine\<close> before \<open>userLine\<close>,
  hands it to the Group parser.
\<close>

theorem C4_group_pattern_overlaps:
  "Match userLine
     (''USER'' @ [CHR 0x09] @ ''GROUP A'' @ [CHR 0x09] @ ''START'' @ [CHR 0x09] @
      ''1700000000000'' @ [CHR 0x0A]) \<and>
   Match groupLine
     (''USER'' @ [CHR 0x09] @ ''GROUP A'' @ [CHR 0x09] @ ''START'' @ [CHR 0x09] @
      ''1700000000000'' @ [CHR 0x0A]) \<and>
   lineKind
     (''USER'' @ [CHR 0x09] @ ''GROUP A'' @ [CHR 0x09] @ ''START'' @ [CHR 0x09] @
      ''1700000000000'' @ [CHR 0x0A]) = Some Group \<and>
   stringProcessor P
     (''USER'' @ [CHR 0x09] @ ''GROUP A'' @ [CHR 0x09] @ ''START'' @ [CHR 0x09] @
      ''1700000000000'' @ [CHR 0x0A]) gv ps =
     groupLineParser P
       (''USER'' @ [CHR 0x09] @ ''GROUP A'' @ [CHR 0x09] @ ''START'' @ [CHR 0x09] @
        ''1700000000000'' @ [CHR 0x0A]) ps"
  by (simp add: Match_def userLine_def groupLine_def requestLine_def lineKind_def
      stringProcessor_def)



text \<open>
  C5. A Run header whose description holds the word \<open>GROUP\<close> and a blank matches \<open>runLine\<close>
  and the unanchored \<open>groupLine\<close>; \<open>stringProcessor\<close>, which tries \<open>groupLine\<close> first, hands it
  to the Group parser, for any set of parsers, and returns what that parser returns, not
  wrapped with \<open>errFatal\<close>. With parsers that reject the line with a plain error, the loop
  logs the error and goes on. The same header without that word reaches the Run parser,
  and its failure ends the loop.
\<close>

theorem C5_run_header_with_group_not_fatal:
  "Match runLine
     (''RUN'' @ [CHR 0x09] @ ''my.Sim'' @ [CHR 0x09] @ ''sim'' @ [CHR 0x09] @ ''1700000000000'' @
      [CHR 0x09] @ ''LOAD GROUP A'' @ [CHR 0x09] @ ''3.5.0'' @ [CHR 0x0A]) \<and>
   lineKind
     (''RUN'' @ [CHR 0x09] @ ''my.Sim'' @ [CHR 0x09] @ ''sim'' @ [CHR 0x09] @ ''1700000000000'' @
      [CHR 0x09] @ ''LOAD GROUP A'' @ [CHR 0x09] @ ''3.5.0'' @ [CHR 0x0A]) = Some Group \<and>
   stringProcessor P
     (''RUN'' @ [CHR 0x09] @ ''my.Sim'' @ [CHR 0x09] @ ''sim'' @ [CHR 0x09] @ ''1700000000000'' @
      [CHR 0x09] @ ''LOAD GROUP A'' @ [CHR 0x09] @ ''3.5.0'' @ [CHR 0x0A]) gv ps =
     groupLineParser P
       (''RUN'' @ [CHR 0x09] @ ''my.Sim'' @ [CHR 0x09] @ ''sim'' @ [CHR 0x09] @ ''1700000000000'' @
        [CHR 0x09] @ ''LOAD GROUP A'' @ [CHR 0x09] @ ''3.5.0'' @ [CHR 0x0A]) ps \<and>
   ParseLoop rejectingParsers 120 []
     [\<lparr>rp_done = False,
       rp_bytes = ''RUN'' @ [CHR 0x09] @ ''my.Sim'' @ [CHR 0x09] @ ''sim'' @ [CHR 0x09] @
         ''1700000000000'' @ [CHR 0x09] @ ''LOAD GROUP A'' @ [CHR 0x09] @ ''3.5.0'' @ [CHR 0x0A],
       rp_err = None, rp_now = 5\<rparr>] (reader0 0 ()) =
     Continue \<lparr>buf = [], startWait = 5, pstate = (),
                dispatched = [''RUN'' @ [CHR 0x09] @ ''my.Sim'' @ [CHR 0x09] @ ''sim'' @ [CHR 0x09] @
                  ''1700000000000'' @ [CHR 0x09] @ ''LOAD GROUP A'' @ [CHR 0x09] @ ''3.5.0'' @
                  [CHR 0x0A]],
                sleeps = 0, logged = [ProcessingFailed (ErrNew ''malformed line'')],
                sent = 0\<rparr> \<and>
   ParseLoop rejectingParsers 120 []
     [\<lparr>rp_done = False,
       rp_bytes = ''RUN'' @ [CHR 0x09] @ ''my.Sim'' @ [CHR 0x09] @ ''sim'' @ [CHR 0x09] @
         ''1700000000000'' @ [CHR 0x09] @ ''LOAD A'' @ [CHR 0x09] @ ''3.5.0'' @ [CHR 0x0A],
       rp_err = None, rp_now = 5\<rparr>,
      \<lparr>rp_done = False, rp_bytes = ''USER'' @ [CHR 0x09, CHR ''a'', CHR 0x0A], rp_err = None,
       rp_now = 6\<rparr>] (reader0 0 ()) =
     Break \<lparr>buf = ''RUN'' @ [CHR 0x09] @ ''my.Sim'' @ [CHR 0x09] @ ''sim'' @ [CHR 0x09] @
               ''1700000000000'' @ [CHR 0x09] @ ''LOAD A'' @ [CHR 0x09] @ ''3.5.0'' @ [CHR 0x0A],
             startWait = 0, pstate = (),
             dispatched = [''RUN'' @ [CHR 0x09] @ ''my.Sim'' @ [CHR 0x09] @ ''sim'' @ [CHR 0x09] @
               ''1700000000000'' @ [CHR 0x09] @ ''LOAD A'' @ [CHR 0x09] @ ''3.5.0'' @ [CHR 0x0A]],
             sleeps = 0,
             logged = [ProcessingFailed (ErrWrapV (ErrNew ''malformed line'') ErrFatal),
                       CannotHandle],
             sent = 0\<rparr>"
proof (intro conjI)
  let ?L = "''RUN'' @ [CHR 0x09] @ ''my.Sim'' @ [CHR 0x09] @ ''sim'' @ [CHR 0x09] @
      ''1700000000000'' @ [CHR 0x09] @ ''LOAD GROUP A'' @ [CHR 0x09] @ ''3.5.0'' @ [CHR 0x0A]"
  show "Match runLine ?L" by (simp add: Match_def runLine_def)
  show k: "lineKind ?L = Some Group"
    by (simp add: lineKind_def Match_def requestLine_def groupLine_def)
  show "stringProcessor P ?L gv ps = groupLineParser P ?L ps"
    by (simp add: stringProcessor_def Match_def requestLine_def groupLine_def)
  show "ParseLoop rejectingParsers 120 []
     [\<lparr>rp_done = False, rp_bytes = ?L, rp_err = None, rp_now = 5\<rparr>] (reader0 0 ()) =
     Continue \<lparr>buf = [], startWait = 5, pstate = (), dispatched = [?L], sleeps = 0,
                logged = [ProcessingFailed (ErrNew ''malformed line'')], sent = 0\<rparr>"
    by (simp add: loopBody_def reader0_def stringProcessor_def rejectingParsers_def Let_def
        Match_def requestLine_def groupLine_def)
next
  let ?R = "''RUN'' @ [CHR 0x09] @ ''my.Sim'' @ [CHR 0x09] @ ''sim'' @ [CHR 0x09] @
      ''1700000000000'' @ [CHR 0x09] @ ''LOAD A'' @ [CHR 0x09] @ ''3.5.0'' @ [CHR 0x0A]"
  show "ParseLoop rejectingParsers 120 []
     [\<lparr>rp_done = False, rp_bytes = ?R, rp_err = None, rp_now = 5\<rparr>,
      \<lparr>rp_done = False, rp_bytes = ''USER'' @ [CHR 0x09, CHR ''a'', CHR 0x0A], rp_err = None,
       rp_now = 6\<rparr>] (reader0 0 ()) =
     Break \<lparr>buf = ?R, startWait = 0, pstate = (), dispatched = [?R], sleeps = 0,
             logged = [ProcessingFailed (ErrWrapV (ErrNew ''malformed line'') ErrFatal),
                       CannotHandle],
             sent = 0\<rparr>"
    by (simp add: loopBody_def reader0_def stringProcessor_def rejectingParsers_def Let_def
        Match_def requestLine_def groupLine_def userLine_def errorLine_def runLine_def)
qed

subsection \<open>Shutdown order\<close>

lemma finisherStep_inv:
  assumes "finisher_inv s" and "finisherStep e s = Some s'"
  shows "finisher_inv s'"
proof (cases e)
  case ExternalStop
  then have "s' = s\<lparr>ctxDone := True\<rparr>" using assms(2) by simp
  then show ?thesis using assms(1) by (simp add: finisher_inv_def)
next
  case ParserLeavesLoop
  then have p: "parser s = Parsing" and s': "s' = s\<lparr>parser := Sending\<rparr>"
    using assms(2) by (simp_all split: if_splits)
  from p assms(1) have "inFinisherLoop s" by (cases "inFinisherLoop s") (simp_all add: finisher_inv_def)
  then show ?thesis using assms(1) s' by (simp add: finisher_inv_def)
next
  case SelectCtxDone
  then have l: "inFinisherLoop s" and s': "s' = s\<lparr>acts := acts s @ [Called_pCancel]\<rparr>"
    using assms(2) by (simp_all split: if_splits)
  then show ?thesis using assms(1) by (simp add: finisher_inv_def)
next
  case SelectParserStopped
  then have l: "inFinisherLoop s"
    and s': "s' = s\<lparr>parser := Delivered, inFinisherLoop := False,
                acts := acts s @ [ReceivedParserStopped, Called_iCancel, Called_pCancel]\<rparr>"
    using assms(2) by (simp_all split: if_splits)
  from l assms(1) have "set (acts s) \<subseteq> {Called_pCancel}" by (simp add: finisher_inv_def)
  then have "\<exists>pre. set pre \<subseteq> {Called_pCancel} \<and>
      acts s' = pre @ [ReceivedParserStopped, Called_iCancel, Called_pCancel]"
    using s' by simp
  then show ?thesis using s' by (simp add: finisher_inv_def)
qed

lemma finisherRun_inv:
  "finisher_inv s \<Longrightarrow> finisherRun es s = Some s' \<Longrightarrow> finisher_inv s'"
proof (induction es arbitrary: s)
  case Nil
  then show ?case by simp
next
  case (Cons e es)
  then obtain s1 where "finisherStep e s = Some s1" "finisherRun es s1 = Some s'"
    by (auto split: option.splits)
  then show ?case using Cons.IH Cons.prems(1) finisherStep_inv by blast
qed

lemma finisher_inv0: "finisher_inv orchestrator0"
  by (simp add: finisher_inv_def orchestrator0_def)

lemma first_occurrence_prefix:
  "x \<notin> set as \<Longrightarrow> as @ x # bs = xs @ x # ys \<Longrightarrow> \<exists>zs. xs = as @ zs"
proof (induction as arbitrary: xs)
  case Nil
  then show ?case by simp
next
  case (Cons a as)
  show ?case
  proof (cases xs)
    case Nil
    then show ?thesis using Cons.prems by simp
  next
    case (Cons b xs')
    then have "a = b" "as @ x # bs = xs' @ x # ys" using Cons.prems(2) by simp_all
    moreover have "x \<notin> set as" using Cons.prems(1) by simp
    ultimately obtain zs where "xs' = as @ zs" using Cons.IH by blast
    then show ?thesis using \<open>a = b\<close> Cons by simp
  qed
qed

text \<open>
  C3. Whatever the order of the events "external stop", "the parser leaves its loop" and
  the two cases of the \<^verbatim>\<open>select\<close> in \<open>FinisherLoop\<close>, every call of \<open>iCancel\<close> comes after the
  value from \<open>parserStopped\<close> was received, and at that moment the parser has left its
  loop and delivered its notification. Before that receipt \<open>FinisherLoop\<close> calls nothing
  but \<open>pCancel\<close>.
\<close>

theorem C3_sink_cancelled_after_notification:
  assumes "finisherRun evs orchestrator0 = Some s"
  shows "(\<forall>xs ys. acts s = xs @ Called_iCancel # ys \<longrightarrow>
            ReceivedParserStopped \<in> set xs \<and> parser s = Delivered) \<and>
         (inFinisherLoop s \<longrightarrow> Called_iCancel \<notin> set (acts s))"
proof -
  have inv: "finisher_inv s"
    using finisher_inv0 assms by (rule finisherRun_inv)
  show ?thesis
  proof (cases "inFinisherLoop s")
    case True
    then have "set (acts s) \<subseteq> {Called_pCancel}"
      using inv by (simp add: finisher_inv_def)
    then have ni: "Called_iCancel \<notin> set (acts s)" by auto
    have no: "acts s \<noteq> xs @ Called_iCancel # ys" for xs ys
    proof
      assume e: "acts s = xs @ Called_iCancel # ys"
      have "Called_iCancel \<in> set (xs @ Called_iCancel # ys)" by simp
      then show False using ni e by simp
    qed
    show ?thesis
    proof (intro conjI allI impI)
      fix xs ys
      assume "acts s = xs @ Called_iCancel # ys"
      then show "ReceivedParserStopped \<in> set xs" using no by blast
    next
      fix xs ys
      assume "acts s = xs @ Called_iCancel # ys"
      then show "parser s = Delivered" using no by blast
    next
      show "Called_iCancel \<notin> set (acts s)" by (rule ni)
    qed
  next
    case False
    with inv have "(\<exists>pre. set pre \<subseteq> {Called_pCancel} \<and>
        acts s = pre @ [ReceivedParserStopped, Called_iCancel, Called_pCancel]) \<and>
        parser s = Delivered"
      by (simp add: finisher_inv_def)
    then obtain pre where p: "set pre \<subseteq> {Called_pCancel}"
      and a0: "acts s = pre @ [ReceivedParserStopped, Called_iCancel, Called_pCancel]"
      and d: "parser s = Delivered"
      by blast
    have a: "acts s = (pre @ [ReceivedParserStopped]) @ Called_iCancel # [Called_pCancel]"
      using a0 by simp
    have n: "Called_iCancel \<notin> set (pre @ [ReceivedParserStopped])"
      using p by auto
    have r: "ReceivedParserStopped \<in> set xs" if "acts s = xs @ Called_iCancel # ys" for xs ys
    proof -
      from that a have eq: "(pre @ [ReceivedParserStopped]) @
          Called_iCancel # [Called_pCancel] = xs @ Called_iCancel # ys"
        by (simp only:)
      have "\<exists>zs. xs = (pre @ [ReceivedParserStopped]) @ zs"
        using n eq by (rule first_occurrence_prefix)
      then obtain zs where "xs = (pre @ [ReceivedParserStopped]) @ zs" ..
      then show ?thesis by simp
    qed
    show ?thesis
    proof (intro conjI allI impI)
      fix xs ys
      assume "acts s = xs @ Called_iCancel # ys"
      then show "ReceivedParserStopped \<in> set xs" by (rule r)
    next
      show "parser s = Delivered" by (rule d)
    next
      assume "inFinisherLoop s"
      then show "Called_iCancel \<notin> set (acts s)" using False by simp
    qed
  qed
qed

theorem C3_sink_cancelled_after_notification_witness:
  "finisherRun [ExternalStop, SelectCtxDone, ParserLeavesLoop, SelectCtxDone, SelectParserStopped]
     orchestrator0 =
     Some \<lparr>ctxDone = True, parser = Delivered, inFinisherLoop = False,
           acts = [Called_pCancel, Called_pCancel, ReceivedParserStopped, Called_iCancel,
                   Called_pCancel]\<rparr> \<and>
   ReceivedParserStopped \<in> set [Called_pCancel, Called_pCancel, ReceivedParserStopped] \<and>
   finisherRun [ParserLeavesLoop, SelectParserStopped] orchestrator0 =
     Some \<lparr>ctxDone = False, parser = Delivered, inFinisherLoop = False,
           acts = [ReceivedParserStopped, Called_iCancel, Called_pCancel]\<rparr> \<and>
   finisherRun [ExternalStop, SelectParserStopped] orchestrator0 = None"
proof -
  let ?s = "\<lparr>ctxDone = True, parser = Delivered, inFinisherLoop = False,
           acts = [Called_pCancel, Called_pCancel, ReceivedParserStopped, Called_iCancel,
                   Called_pCancel]\<rparr>"
  have r: "finisherRun
      [ExternalStop, SelectCtxDone, ParserLeavesLoop, SelectCtxDone, SelectParserStopped]
      orchestrator0 = Some ?s"
    by (simp add: orchestrator0_def)
  have "acts ?s = [Called_pCancel, Called_pCancel, ReceivedParserStopped] @
      Called_iCancel # [Called_pCancel]"
    by simp
  then have "ReceivedParserStopped \<in> set [Called_pCancel, Called_pCancel, ReceivedParserStopped]"
    using C3_sink_cancelled_after_notification [OF r] by blast
  then show ?thesis using r by (simp add: orchestrator0_def)
qed


end
